theory Spec2Isabelle
  imports Complex_Main "HOL-Library.Multiset"
begin

section \<open>Python values used by the services\<close>

subsection \<open>Errors\<close>

text \<open>
  Every exception the modelled code can raise is a value. \<open>NotFound\<close> and \<open>Forbidden\<close> are
  the \<open>HTTPException\<close>s with status 404 and 403; \<open>ValidationError\<close> is pydantic's, carrying
  the names of the fields that failed; \<open>ValueError\<close> and \<open>OverflowError\<close> come from the
  \<open>datetime\<close> module; \<open>MultipleResultsFound\<close> is raised by \<open>scalar_one_or_none\<close>;
  \<open>IntegrityError\<close> by a commit that violates a \<open>nullable=False\<close> column.
\<close>

datatype error =
    NotFound
  | Forbidden
  | ValidationError "string list"
  | ValueError
  | OverflowError
  | MultipleResultsFound
  | IntegrityError

definition ebind :: "error + 'a \<Rightarrow> ('a \<Rightarrow> error + 'b) \<Rightarrow> error + 'b" where
  "ebind m f = (case m of Inl e \<Rightarrow> Inl e | Inr x \<Rightarrow> f x)"

subsection \<open>Floats\<close>

text \<open>
  A Python \<open>float\<close> is an IEEE-754 binary64 number. A finite one is a rational, and every
  arithmetic operation returns the exact result rounded to the nearest binary64 number,
  ties to the even significand. \<open>float_round\<close> is that rounding: for \<open>2^e \<le> |q| < 2^(e+1)\<close>
  the spacing of the binary64 numbers is \<open>2^(e-52)\<close>, and never below \<open>2^-1074\<close>. Results
  beyond the largest finite binary64 number, where Python yields \<open>inf\<close>, are outside
  this model.
\<close>

definition round_half_even :: "rat \<Rightarrow> int" where
  "round_half_even q =
     (let f = \<lfloor>q\<rfloor>; r = q - of_int f
      in if r < 1 / 2 then f else if 1 / 2 < r then f + 1 else if even f then f else f + 1)"

definition two_powi :: "int \<Rightarrow> rat" where
  "two_powi k = (if 0 \<le> k then 2 ^ nat k else 1 / 2 ^ nat (- k))"

text \<open>The number of binary digits of a positive integer.\<close>

function bitlen :: "int \<Rightarrow> int" where
  "bitlen n = (if n \<le> 0 then 0 else 1 + bitlen (n div 2))"
  by pat_completeness auto
termination
  by (relation "measure nat") auto

text \<open>For \<open>0 < q\<close>, the exponent \<open>e\<close> with \<open>2^e \<le> q < 2^(e+1)\<close>.\<close>

definition ilog2 :: "rat \<Rightarrow> int" where
  "ilog2 q =
     (let (n, d) = quotient_of q;
          k = bitlen n - bitlen d
      in if two_powi k \<le> q then k else k - 1)"

definition float_round :: "rat \<Rightarrow> rat" where
  "float_round q =
     (if q = 0 then 0
      else let s = max (ilog2 \<bar>q\<bar> - 52) (- 1074)
           in of_int (round_half_even (q / two_powi s)) * two_powi s)"

definition fadd :: "rat \<Rightarrow> rat \<Rightarrow> rat" where
  "fadd a b = float_round (a + b)"

definition fsub :: "rat \<Rightarrow> rat \<Rightarrow> rat" where
  "fsub a b = float_round (a - b)"

text \<open>
  \<open>round(x, 2)\<close> on a float: the exact value of \<open>x\<close> is rounded to two decimals, ties to
  even, and the decimal result is converted back to the nearest float.
\<close>

definition py_round2 :: "rat \<Rightarrow> rat" where
  "py_round2 x = float_round (of_int (round_half_even (x * 100)) / 100)"

text \<open>
  \<open>sum(iterable)\<close> starts from the integer \<open>0\<close> and adds the items from left to right
  (CPython up to 3.11; from 3.12 on \<open>sum\<close> also carries a compensation term for the
  rounding errors of the additions, which is zero whenever the additions are exact).
\<close>

definition py_sum :: "rat list \<Rightarrow> rat" where
  "py_sum xs = foldl fadd 0 xs"

subsection \<open>Dates and datetimes\<close>

text \<open>
  The functions of Python's \<open>datetime\<close> module that the services call. A \<open>date\<close> is
  represented by its proleptic Gregorian ordinal (\<open>date.toordinal()\<close>, day 1 is
  0001-01-01), a \<open>datetime\<close> by the microseconds elapsed since the start of day 0, a
  \<open>timedelta\<close> by its length in microseconds.
\<close>

type_synonym date = int
type_synonym datetime = int
type_synonym timedelta = int

definition is_leap :: "int \<Rightarrow> bool" where
  "is_leap y = (y mod 4 = 0 \<and> (y mod 100 \<noteq> 0 \<or> y mod 400 = 0))"

definition days_before_year :: "int \<Rightarrow> int" where
  "days_before_year y = (let y1 = y - 1 in y1 * 365 + y1 div 4 - y1 div 100 + y1 div 400)"

definition DAYS_IN_MONTH :: "int \<Rightarrow> int" where
  "DAYS_IN_MONTH m =
     (if m = 2 then 28 else if m = 4 \<or> m = 6 \<or> m = 9 \<or> m = 11 then 30 else 31)"

definition days_in_month :: "int \<Rightarrow> int \<Rightarrow> int" where
  "days_in_month y m = (if m = 2 \<and> is_leap y then 29 else DAYS_IN_MONTH m)"

definition DAYS_BEFORE_MONTH :: "int \<Rightarrow> int" where
  "DAYS_BEFORE_MONTH m =
     (if m = 1 then 0 else if m = 2 then 31 else if m = 3 then 59 else if m = 4 then 90
      else if m = 5 then 120 else if m = 6 then 151 else if m = 7 then 181
      else if m = 8 then 212 else if m = 9 then 243 else if m = 10 then 273
      else if m = 11 then 304 else 334)"

definition days_before_month :: "int \<Rightarrow> int \<Rightarrow> int" where
  "days_before_month y m =
     DAYS_BEFORE_MONTH m + (if 2 < m \<and> is_leap y then 1 else 0)"

definition ymd2ord :: "int \<Rightarrow> int \<Rightarrow> int \<Rightarrow> int" where
  "ymd2ord y m d = days_before_year y + days_before_month y m + d"

definition us_per_second :: int where
  "us_per_second = 1000000"

definition us_per_day :: int where
  "us_per_day = 86400 * us_per_second"

definition datetime_min :: datetime where
  "datetime_min = ymd2ord 1 1 1 * us_per_day"

definition datetime_max :: datetime where
  "datetime_max = ymd2ord 9999 12 31 * us_per_day + (us_per_day - 1)"

text \<open>\<open>date(y, m, d)\<close> and \<open>datetime(y, m, d)\<close> (midnight): a \<open>ValueError\<close> outside the calendar.\<close>

definition mk_date :: "int \<Rightarrow> int \<Rightarrow> int \<Rightarrow> error + date" where
  "mk_date y m d =
     (if 1 \<le> y \<and> y \<le> 9999 \<and> 1 \<le> m \<and> m \<le> 12 \<and> 1 \<le> d \<and> d \<le> days_in_month y m
      then Inr (ymd2ord y m d) else Inl ValueError)"

definition mk_datetime :: "int \<Rightarrow> int \<Rightarrow> int \<Rightarrow> error + datetime" where
  "mk_datetime y m d = ebind (mk_date y m d) (\<lambda>ord. Inr (ord * us_per_day))"

text \<open>\<open>datetime.min.time()\<close> is 00:00:00, \<open>datetime.max.time()\<close> is 23:59:59.999999.\<close>

definition time_min :: int where
  "time_min = 0"

definition time_max :: int where
  "time_max = us_per_day - 1"

definition combine :: "date \<Rightarrow> int \<Rightarrow> datetime" where
  "combine d t = d * us_per_day + t"

text \<open>
  \<open>timedelta(weeks, days, hours, minutes, seconds)\<close>: an \<open>OverflowError\<close> when the
  magnitude exceeds 999999999 days.
\<close>

definition mk_timedelta :: "int \<Rightarrow> int \<Rightarrow> int \<Rightarrow> int \<Rightarrow> int \<Rightarrow> error + timedelta" where
  "mk_timedelta weeks days hours minutes seconds =
     (let us = (weeks * 7 + days) * us_per_day
               + (hours * 3600 + minutes * 60 + seconds) * us_per_second
      in if - 999999999 \<le> us div us_per_day \<and> us div us_per_day \<le> 999999999
         then Inr us else Inl OverflowError)"

text \<open>\<open>datetime + timedelta\<close>: an \<open>OverflowError\<close> outside years 1..9999.\<close>

definition datetime_add :: "datetime \<Rightarrow> timedelta \<Rightarrow> error + datetime" where
  "datetime_add dt td =
     (let r = dt + td
      in if datetime_min \<le> r \<and> r \<le> datetime_max then Inr r else Inl OverflowError)"

text \<open>Truthiness of an \<open>Optional[int]\<close>: \<open>None\<close> and \<open>0\<close> are false.\<close>

definition truthy :: "int option \<Rightarrow> bool" where
  "truthy v = (case v of None \<Rightarrow> False | Some n \<Rightarrow> n \<noteq> 0)"

section \<open>Models\<close>

text \<open>\<open>models/expense.py\<close> and \<open>models/user.py\<close>. Amounts and salaries are floats.\<close>

datatype ExpenseCategory = FOOD | TRANSPORT | ENTERTAINMENT | UTILITIES | OTHER

record User =
  user_id :: int
  username :: string
  email :: "string option"
  hashed_password :: "string option"
  salary :: rat
  is_active :: bool
  created_at :: datetime
  updated_at :: datetime

record Expense =
  expense_id :: int
  user_id :: int
  name :: string
  amount :: rat
  category :: ExpenseCategory
  created_at :: datetime

text \<open>The database session: the rows of the two tables, in storage order.\<close>

record db =
  users :: "User list"
  expenses :: "Expense list"

text \<open>\<open>Result.scalar_one_or_none()\<close> on the rows a query selected.\<close>

definition scalar_one_or_none :: "'a list \<Rightarrow> error + 'a option" where
  "scalar_one_or_none rows =
     (case rows of [] \<Rightarrow> Inr None | [r] \<Rightarrow> Inr (Some r) | _ \<Rightarrow> Inl MultipleResultsFound)"

section \<open>Schemas\<close>

subsection \<open>ExpenseFilter\<close>

text \<open>\<open>schemas/expense.py\<close>, lines 100 to 143.\<close>

record ExpenseFilter =
  day :: "date option"
  week :: "int option"
  month :: "int option"
  year :: "int option"
  category :: "ExpenseCategory option"

text \<open>
  pydantic validates the fields of a model in the order of their declaration: \<open>day\<close>,
  \<open>week\<close>, \<open>month\<close>, \<open>year\<close>, \<open>category\<close>. A field validator receives \<open>info.data\<close>, the
  dictionary of the fields validated so far; a field that failed, or that comes later in
  the declaration order, is not in it. The errors of all fields are collected and raised
  together as one \<open>ValidationError\<close>.
\<close>

datatype field_value = VNone | VDate date | VInt int | VCategory ExpenseCategory

type_synonym validated_data = "(string \<times> field_value) list"

definition opt_value :: "('a \<Rightarrow> field_value) \<Rightarrow> 'a option \<Rightarrow> field_value" where
  "opt_value mk v = (case v of None \<Rightarrow> VNone | Some x \<Rightarrow> mk x)"

text \<open>\<open>info.data.get(key)\<close>: \<open>None\<close> when the key is absent.\<close>

definition info_data_get :: "validated_data \<Rightarrow> string \<Rightarrow> field_value" where
  "info_data_get data k = (case map_of data k of None \<Rightarrow> VNone | Some v \<Rightarrow> v)"

text \<open>The constraints \<open>ge\<close> and \<open>le\<close> of an \<open>Optional[int]\<close> field.\<close>

definition check_ge_le :: "int \<Rightarrow> int \<Rightarrow> int option \<Rightarrow> error + int option" where
  "check_ge_le lo hi v =
     (case v of None \<Rightarrow> Inr None
      | Some n \<Rightarrow> if lo \<le> n \<and> n \<le> hi then Inr (Some n) else Inl ValueError)"

definition validate_week_requires_year :: "int option \<Rightarrow> validated_data \<Rightarrow> error + int option" where
  "validate_week_requires_year v data =
     (if v \<noteq> None \<and> info_data_get data ''year'' = VNone then Inl ValueError else Inr v)"

definition validate_month_requires_year :: "int option \<Rightarrow> validated_data \<Rightarrow> error + int option" where
  "validate_month_requires_year v data =
     (if v \<noteq> None \<and> info_data_get data ''year'' = VNone then Inl ValueError else Inr v)"

text \<open>One step of the model validation: the outcome of a field extends the validated data
  or the list of errors.\<close>

definition record_field ::
  "string \<Rightarrow> ('a \<Rightarrow> field_value) \<Rightarrow> error + 'a option \<Rightarrow> validated_data \<times> string list
     \<Rightarrow> validated_data \<times> string list" where
  "record_field fname mk r st =
     (case r of Inr v \<Rightarrow> (fst st @ [(fname, opt_value mk v)], snd st)
      | Inl _ \<Rightarrow> (fst st, snd st @ [fname]))"

text \<open>\<open>ExpenseFilter(day=..., week=..., month=..., year=..., category=...)\<close>.\<close>

definition ExpenseFilter_init :: "ExpenseFilter \<Rightarrow> error + ExpenseFilter" where
  "ExpenseFilter_init raw =
     (let st0 = ([], []);
          r_day = Inr (day raw);
          st1 = record_field ''day'' VDate r_day st0;
          r_week = ebind (check_ge_le 1 53 (week raw))
                     (\<lambda>v. validate_week_requires_year v (fst st1));
          st2 = record_field ''week'' VInt r_week st1;
          r_month = ebind (check_ge_le 1 12 (month raw))
                      (\<lambda>v. validate_month_requires_year v (fst st2));
          st3 = record_field ''month'' VInt r_month st2;
          r_year = check_ge_le 2000 2100 (year raw);
          st4 = record_field ''year'' VInt r_year st3;
          r_category = Inr (category raw);
          st5 = record_field ''category'' VCategory r_category st4
      in if snd st5 = [] then Inr raw else Inl (ValidationError (snd st5)))"

subsection \<open>ExpenseUpdate\<close>

text \<open>
  \<open>schemas/expense.py\<close>, lines 57 to 74. Every field of \<open>ExpenseUpdate\<close> is optional,
  and pydantic remembers which fields the caller supplied: \<open>Unset\<close> is a field left out,
  \<open>Set None\<close> one supplied as null, \<open>Set (Some v)\<close> one supplied with a value.
  \<open>model_dump(exclude_unset=True)\<close> keeps the last two.
\<close>

datatype 'a field = Unset | Set "'a option"

record ExpenseUpdate =
  name :: "string field"
  amount :: "rat field"
  category :: "ExpenseCategory field"

subsection \<open>Budget\<close>

text \<open>\<open>schemas/budget.py\<close>.\<close>

record CategoryBreakdown =
  Food :: rat
  Transport :: rat
  Entertainment :: rat
  Utilities :: rat
  Other :: rat

record BudgetSummary =
  user_id :: int
  total_salary :: rat
  total_expense :: rat
  remaining_amount :: rat
  category_breakdown :: CategoryBreakdown

text \<open>The constraint \<open>ge=0\<close> of a float field: the names of the fields that violate it.\<close>

definition check_ge0 :: "string \<Rightarrow> rat \<Rightarrow> string list" where
  "check_ge0 fname v = (if 0 \<le> v then [] else [fname])"

text \<open>\<open>CategoryBreakdown(**category_totals)\<close>.\<close>

definition CategoryBreakdown_init :: "(ExpenseCategory \<Rightarrow> rat) \<Rightarrow> error + CategoryBreakdown" where
  "CategoryBreakdown_init totals =
     (let errs = check_ge0 ''Food'' (totals FOOD) @ check_ge0 ''Transport'' (totals TRANSPORT)
                 @ check_ge0 ''Entertainment'' (totals ENTERTAINMENT)
                 @ check_ge0 ''Utilities'' (totals UTILITIES) @ check_ge0 ''Other'' (totals OTHER)
      in if errs = []
         then Inr \<lparr>Food = totals FOOD, Transport = totals TRANSPORT,
                   Entertainment = totals ENTERTAINMENT, Utilities = totals UTILITIES,
                   Other = totals OTHER\<rparr>
         else Inl (ValidationError errs))"

text \<open>\<open>BudgetSummary(user_id=..., total_salary=..., ...)\<close>.\<close>

definition BudgetSummary_init ::
  "int \<Rightarrow> rat \<Rightarrow> rat \<Rightarrow> rat \<Rightarrow> CategoryBreakdown \<Rightarrow> error + BudgetSummary" where
  "BudgetSummary_init uid sal tot remaining breakdown =
     (let errs = check_ge0 ''total_salary'' sal @ check_ge0 ''total_expense'' tot
      in if errs = []
         then Inr \<lparr>user_id = uid, total_salary = sal, total_expense = tot,
                   remaining_amount = remaining, category_breakdown = breakdown\<rparr>
         else Inl (ValidationError errs))"

section \<open>ExpenseService\<close>

text \<open>\<open>services/expense_service.py\<close>.\<close>

definition verify_user_exists :: "db \<Rightarrow> int \<Rightarrow> error + User" where
  "verify_user_exists d uid =
     ebind (scalar_one_or_none (filter (\<lambda>u. User.user_id u = uid) (users d)))
       (\<lambda>user. case user of None \<Rightarrow> Inl NotFound | Some u \<Rightarrow> Inr u)"

definition get_expense_by_id :: "db \<Rightarrow> int \<Rightarrow> error + Expense option" where
  "get_expense_by_id d eid =
     scalar_one_or_none (filter (\<lambda>e. expense_id e = eid) (expenses d))"

subsection \<open>get_user_expenses\<close>

text \<open>
  Lines 103 to 185. The conditions appended to the query: \<open>CreatedBetween lo hi\<close> is
  \<open>and_(Expense.created_at >= lo, Expense.created_at <= hi)\<close>, \<open>CategoryEq c\<close> is
  \<open>Expense.category == c\<close>.
\<close>

datatype condition = CreatedBetween datetime datetime | CategoryEq ExpenseCategory

fun holds :: "condition \<Rightarrow> Expense \<Rightarrow> bool" where
  "holds (CreatedBetween lo hi) e = (lo \<le> Expense.created_at e \<and> Expense.created_at e \<le> hi)"
| "holds (CategoryEq c) e = (Expense.category e = c)"

text \<open>The branch \<open>elif filters.week and filters.year\<close>.\<close>

definition week_condition :: "int \<Rightarrow> int \<Rightarrow> error + condition" where
  "week_condition y w =
     ebind (mk_datetime y 1 1) (\<lambda>jan_1.
     ebind (mk_timedelta (w - 1) 0 0 0 0) (\<lambda>td.
     ebind (datetime_add jan_1 td) (\<lambda>week_start.
     ebind (mk_timedelta 0 6 23 59 59) (\<lambda>td_end.
     ebind (datetime_add week_start td_end) (\<lambda>week_end.
     Inr (CreatedBetween week_start week_end))))))"

text \<open>The branch \<open>elif filters.month and filters.year\<close>.\<close>

definition month_condition :: "int \<Rightarrow> int \<Rightarrow> error + condition" where
  "month_condition y m =
     ebind (mk_datetime y m 1) (\<lambda>month_start.
     ebind (if m = 12
            then ebind (mk_datetime (y + 1) 1 1) (\<lambda>nxt.
                 ebind (mk_timedelta 0 0 0 0 1) (\<lambda>td. datetime_add nxt (- td)))
            else ebind (mk_datetime y (m + 1) 1) (\<lambda>nxt.
                 ebind (mk_timedelta 0 0 0 0 1) (\<lambda>td. datetime_add nxt (- td))))
       (\<lambda>month_end. Inr (CreatedBetween month_start month_end)))"

text \<open>The list \<open>conditions\<close> built inside \<open>if filters:\<close>.\<close>

definition filter_conditions :: "ExpenseFilter \<Rightarrow> error + condition list" where
  "filter_conditions filters =
     ebind (case day filters of
              Some d \<Rightarrow> Inr [CreatedBetween (combine d time_min) (combine d time_max)]
            | None \<Rightarrow>
                if truthy (week filters) \<and> truthy (year filters)
                then ebind (week_condition (the (year filters)) (the (week filters)))
                       (\<lambda>c. Inr [c])
                else if truthy (month filters) \<and> truthy (year filters)
                then ebind (month_condition (the (year filters)) (the (month filters)))
                       (\<lambda>c. Inr [c])
                else Inr [])
       (\<lambda>conditions.
          case ExpenseFilter.category filters of
            Some c \<Rightarrow> Inr (conditions @ [CategoryEq c])
          | None \<Rightarrow> Inr conditions)"

text \<open>
  \<open>order_by(Expense.created_at.desc())\<close>. The database leaves the order of rows with
  equal timestamps open; the model keeps their storage order.
\<close>

definition order_by_created_at_desc :: "Expense list \<Rightarrow> Expense list" where
  "order_by_created_at_desc rows = sort_key (\<lambda>e. - Expense.created_at e) rows"

definition get_user_expenses :: "db \<Rightarrow> int \<Rightarrow> ExpenseFilter option \<Rightarrow> error + Expense list" where
  "get_user_expenses d uid filters =
     ebind (verify_user_exists d uid) (\<lambda>_.
     ebind (case filters of None \<Rightarrow> Inr [] | Some f \<Rightarrow> filter_conditions f) (\<lambda>conditions.
     Inr (order_by_created_at_desc
            (filter (\<lambda>e. Expense.user_id e = uid \<and> list_all (\<lambda>c. holds c e) conditions)
               (expenses d)))))"

subsection \<open>update_expense and delete_expense\<close>

text \<open>
  Lines 188 to 273. The check \<open>if user_id and db_expense.user_id != user_id\<close>: an id of
  \<open>0\<close> is as false as \<open>None\<close>.
\<close>

definition not_authorized :: "int option \<Rightarrow> Expense \<Rightarrow> bool" where
  "not_authorized uid e = (truthy uid \<and> Expense.user_id e \<noteq> the uid)"

text \<open>
  The loop \<open>for field, value in update_data.items(): setattr(db_expense, field, value)\<close>
  assigns every field of the dumped update data. \<open>setattr upd attr\<close> is the attribute
  after the loop: the old value for a field that was not dumped, the dumped value, which
  may be \<open>None\<close>, otherwise.
\<close>

definition setattr :: "'a field \<Rightarrow> 'a option \<Rightarrow> 'a option" where
  "setattr upd attr = (case upd of Unset \<Rightarrow> attr | Set v \<Rightarrow> v)"

text \<open>
  \<open>db.commit()\<close> of the changed row: the columns \<open>name\<close>, \<open>amount\<close> and \<open>category\<close> are
  declared \<open>nullable=False\<close>, so a null makes the commit fail and the session roll back.
\<close>

definition commit_expense ::
  "Expense \<Rightarrow> string option \<Rightarrow> rat option \<Rightarrow> ExpenseCategory option \<Rightarrow> error + Expense" where
  "commit_expense e n a c =
     (case (n, a, c) of
        (Some n', Some a', Some c') \<Rightarrow>
          Inr (e\<lparr>Expense.name := n', Expense.amount := a', Expense.category := c'\<rparr>)
      | _ \<Rightarrow> Inl IntegrityError)"

definition replace_row :: "Expense \<Rightarrow> db \<Rightarrow> db" where
  "replace_row e' d =
     d\<lparr>expenses := map (\<lambda>e. if expense_id e = expense_id e' then e' else e) (expenses d)\<rparr>"

definition delete_row :: "Expense \<Rightarrow> db \<Rightarrow> db" where
  "delete_row e' d = d\<lparr>expenses := filter (\<lambda>e. expense_id e \<noteq> expense_id e') (expenses d)\<rparr>"

text \<open>
  Both functions return their outcome together with the database they leave behind; an
  exception leaves the database as it was.
\<close>

definition update_expense ::
  "db \<Rightarrow> int \<Rightarrow> ExpenseUpdate \<Rightarrow> int option \<Rightarrow> (error + Expense) \<times> db" where
  "update_expense d eid expense_data uid =
     (case get_expense_by_id d eid of
        Inl err \<Rightarrow> (Inl err, d)
      | Inr None \<Rightarrow> (Inl NotFound, d)
      | Inr (Some db_expense) \<Rightarrow>
          if not_authorized uid db_expense then (Inl Forbidden, d)
          else
            (case commit_expense db_expense
                    (setattr (ExpenseUpdate.name expense_data) (Some (Expense.name db_expense)))
                    (setattr (ExpenseUpdate.amount expense_data) (Some (Expense.amount db_expense)))
                    (setattr (ExpenseUpdate.category expense_data)
                       (Some (Expense.category db_expense))) of
               Inl err \<Rightarrow> (Inl err, d)
             | Inr e' \<Rightarrow> (Inr e', replace_row e' d)))"

definition delete_expense :: "db \<Rightarrow> int \<Rightarrow> int option \<Rightarrow> (error + bool) \<times> db" where
  "delete_expense d eid uid =
     (case get_expense_by_id d eid of
        Inl err \<Rightarrow> (Inl err, d)
      | Inr None \<Rightarrow> (Inl NotFound, d)
      | Inr (Some db_expense) \<Rightarrow>
          if not_authorized uid db_expense then (Inl Forbidden, d)
          else (Inr True, delete_row db_expense d))"

subsection \<open>get_budget_summary\<close>

text \<open>
  Lines 276 to 327. The dictionary \<open>category_totals\<close> after the loop
  \<open>category_totals[expense.category.value] += expense.amount\<close> over the expenses.
\<close>

definition category_totals :: "Expense list \<Rightarrow> ExpenseCategory \<Rightarrow> rat" where
  "category_totals es =
     foldl (\<lambda>totals e. totals(Expense.category e := fadd (totals (Expense.category e)) (Expense.amount e)))
       (\<lambda>_. 0) es"

text \<open>
  The aggregation of \<open>get_budget_summary\<close>, lines 301 to 327, from the user's salary and
  the filtered expenses.
\<close>

definition aggregate :: "int \<Rightarrow> rat \<Rightarrow> Expense list \<Rightarrow> error + BudgetSummary" where
  "aggregate uid sal es =
     (let tot = py_sum (map Expense.amount es);
          remaining = fsub sal tot
      in ebind (CategoryBreakdown_init (category_totals es)) (\<lambda>breakdown.
         BudgetSummary_init uid sal (py_round2 tot) (py_round2 remaining) breakdown))"

definition get_budget_summary :: "db \<Rightarrow> int \<Rightarrow> ExpenseFilter option \<Rightarrow> error + BudgetSummary" where
  "get_budget_summary d uid filters =
     ebind (verify_user_exists d uid) (\<lambda>user.
     ebind (get_user_expenses d uid filters) (\<lambda>es.
     aggregate uid (salary user) es))"

section \<open>UserService\<close>

text \<open>\<open>services/user_service.py\<close>, lines 35 to 47 and 204 to 231.\<close>

definition get_user_by_username :: "db \<Rightarrow> string \<Rightarrow> error + User option" where
  "get_user_by_username d uname =
     scalar_one_or_none (filter (\<lambda>u. username u = uname) (users d))"

text \<open>
  \<open>verify_password\<close> comes from \<open>core.security\<close>; it is a parameter here. An empty
  \<open>hashed_password\<close> is as false as a missing one.
\<close>

definition authenticate_user ::
  "(string \<Rightarrow> string \<Rightarrow> bool) \<Rightarrow> db \<Rightarrow> string \<Rightarrow> string \<Rightarrow> error + User option" where
  "authenticate_user verify_password d uname password =
     ebind (get_user_by_username d uname) (\<lambda>user.
       case user of
         None \<Rightarrow> Inr None
       | Some u \<Rightarrow>
           (case hashed_password u of
              None \<Rightarrow> Inr None
            | Some h \<Rightarrow>
                if h = [] then Inr None
                else if \<not> verify_password password h then Inr None
                else Inr (Some u)))"

section \<open>Endpoints\<close>

text \<open>
  The bodies of the two \<open>GET\<close> handlers of \<open>api/v1/endpoints/expenses.py\<close>, lines 67 to
  104 and 208 to 245: they build the filter object from the query parameters and call the
  service.
\<close>

definition endpoint_get_user_expenses ::
  "db \<Rightarrow> int \<Rightarrow> date option \<Rightarrow> int option \<Rightarrow> int option \<Rightarrow> int option
     \<Rightarrow> ExpenseCategory option \<Rightarrow> error + Expense list" where
  "endpoint_get_user_expenses d uid dy wk mo yr cat =
     ebind (ExpenseFilter_init \<lparr>day = dy, week = wk, month = mo, year = yr, category = cat\<rparr>)
       (\<lambda>filters. get_user_expenses d uid (Some filters))"

definition endpoint_get_budget_summary ::
  "db \<Rightarrow> int \<Rightarrow> date option \<Rightarrow> int option \<Rightarrow> int option \<Rightarrow> int option
     \<Rightarrow> ExpenseCategory option \<Rightarrow> error + BudgetSummary" where
  "endpoint_get_budget_summary d uid dy wk mo yr cat =
     ebind (ExpenseFilter_init \<lparr>day = dy, week = wk, month = mo, year = yr, category = cat\<rparr>)
       (\<lambda>filters. get_budget_summary d uid (Some filters))"

section \<open>The specification's notions\<close>

text \<open>
  The ranges of the filter resolver as the specification words them. Day: 00:00:00.000000
  to 23:59:59.999999 of the date. Week \<open>n\<close> of year \<open>y\<close>: from January 1st plus \<open>(n-1)*7\<close>
  days, to that start plus 6 days 23:59:59. Month: from the first day 00:00:00 to the last
  day 23:59:59.
\<close>

definition spec_day_range :: "date \<Rightarrow> datetime \<times> datetime" where
  "spec_day_range d = (d * us_per_day, d * us_per_day + (us_per_day - 1))"

definition spec_week_range :: "int \<Rightarrow> int \<Rightarrow> datetime \<times> datetime" where
  "spec_week_range y n =
     (let start = (ymd2ord y 1 1 + (n - 1) * 7) * us_per_day
      in (start, start + (6 * 86400 + 23 * 3600 + 59 * 60 + 59) * us_per_second))"

definition spec_month_range :: "int \<Rightarrow> int \<Rightarrow> datetime \<times> datetime" where
  "spec_month_range y m =
     (ymd2ord y m 1 * us_per_day,
      ymd2ord y m (days_in_month y m) * us_per_day + (23 * 3600 + 59 * 60 + 59) * us_per_second)"

text \<open>Precedence of the range selectors: day, then week, then month; first match wins.\<close>

definition spec_range :: "ExpenseFilter \<Rightarrow> (datetime \<times> datetime) option" where
  "spec_range f =
     (case day f of
        Some d \<Rightarrow> Some (spec_day_range d)
      | None \<Rightarrow>
          (case (week f, year f) of
             (Some w, Some y) \<Rightarrow> Some (spec_week_range y w)
           | _ \<Rightarrow>
               (case (month f, year f) of
                  (Some m, Some y) \<Rightarrow> Some (spec_month_range y m)
                | _ \<Rightarrow> None)))"

definition in_range :: "(datetime \<times> datetime) option \<Rightarrow> Expense \<Rightarrow> bool" where
  "in_range r e =
     (case r of None \<Rightarrow> True
      | Some (lo, hi) \<Rightarrow> lo \<le> Expense.created_at e \<and> Expense.created_at e \<le> hi)"

definition in_category :: "ExpenseCategory option \<Rightarrow> Expense \<Rightarrow> bool" where
  "in_category c e = (case c of None \<Rightarrow> True | Some c' \<Rightarrow> Expense.category e = c')"

fun is_range :: "condition \<Rightarrow> bool" where
  "is_range (CreatedBetween lo hi) = True"
| "is_range (CategoryEq c) = False"

text \<open>The bounds \<open>ge\<close> and \<open>le\<close> that \<open>ExpenseFilter\<close> declares for its integer fields.\<close>

definition within_bounds :: "int \<Rightarrow> int \<Rightarrow> int option \<Rightarrow> bool" where
  "within_bounds lo hi v = (case v of None \<Rightarrow> True | Some n \<Rightarrow> lo \<le> n \<and> n \<le> hi)"

definition field_bounds :: "ExpenseFilter \<Rightarrow> bool" where
  "field_bounds f =
     (within_bounds 1 53 (week f) \<and> within_bounds 1 12 (month f)
      \<and> within_bounds 2000 2100 (year f))"

definition filter_bounds :: "ExpenseFilter option \<Rightarrow> bool" where
  "filter_bounds filters = (case filters of None \<Rightarrow> True | Some f \<Rightarrow> field_bounds f)"

text \<open>A user without a stored credential: the hash is missing or empty.\<close>

definition no_stored_credential :: "User \<Rightarrow> bool" where
  "no_stored_credential u = (hashed_password u = None \<or> hashed_password u = Some [])"

text \<open>
  Amounts that floats add without rounding: non-negative whole numbers whose sum does not
  exceed \<open>2^53\<close>.
\<close>

definition whole_amounts :: "rat list \<Rightarrow> bool" where
  "whole_amounts xs =
     (list_all (\<lambda>x. 0 \<le> x \<and> of_int \<lfloor>x\<rfloor> = x) xs \<and> sum_list xs \<le> 2 ^ 53)"

definition breakdown_sum :: "CategoryBreakdown \<Rightarrow> rat" where
  "breakdown_sum b = Food b + Transport b + Entertainment b + Utilities b + Other b"

text \<open>The value a breakdown reports for a category.\<close>

definition breakdown_value :: "ExpenseCategory \<Rightarrow> CategoryBreakdown \<Rightarrow> rat" where
  "breakdown_value c b =
     (case c of FOOD \<Rightarrow> Food b | TRANSPORT \<Rightarrow> Transport b | ENTERTAINMENT \<Rightarrow> Entertainment b
      | UTILITIES \<Rightarrow> Utilities b | OTHER \<Rightarrow> Other b)"

text \<open>The amounts of the expenses of one category, in list order.\<close>

definition amounts_in :: "ExpenseCategory \<Rightarrow> Expense list \<Rightarrow> rat list" where
  "amounts_in c es = map Expense.amount (filter (\<lambda>e. Expense.category e = c) es)"

text \<open>The five values of a breakdown, in the order the summary lists them.\<close>

definition breakdown_values :: "CategoryBreakdown \<Rightarrow> rat list" where
  "breakdown_values b = [Food b, Transport b, Entertainment b, Utilities b, Other b]"

text \<open>
  Every float addition is exact: adding the elements of a list one by one to an
  accumulator, each float sum \<open>fadd acc x\<close> is the real sum \<open>acc + x\<close>.
  For an expense list, the additions are those the aggregation performs: the running
  total over all amounts and the running sum of each category.
\<close>

fun exact_fold :: "rat \<Rightarrow> rat list \<Rightarrow> bool" where
  "exact_fold acc [] = True"
| "exact_fold acc (x # xs) = (fadd acc x = acc + x \<and> exact_fold (acc + x) xs)"

definition exact_additions :: "Expense list \<Rightarrow> bool" where
  "exact_additions es =
     (exact_fold 0 (map Expense.amount es) \<and> exact_fold 0 (amounts_in FOOD es)
      \<and> exact_fold 0 (amounts_in TRANSPORT es) \<and> exact_fold 0 (amounts_in ENTERTAINMENT es)
      \<and> exact_fold 0 (amounts_in UTILITIES es) \<and> exact_fold 0 (amounts_in OTHER es))"

section \<open>Example data\<close>

text \<open>
  One user with salary 1000 and expenses created on 2025-01-15, 2025-02-01 and 2025-06-10,
  a second user without a password, and a toy credential check.
\<close>

definition ex_alice :: User where
  "ex_alice = \<lparr>User.user_id = 1, username = ''alice'', email = None,
     hashed_password = Some ''hash-of-secret'', salary = 1000, is_active = False,
     User.created_at = ymd2ord 2025 1 1 * us_per_day, updated_at = ymd2ord 2025 1 1 * us_per_day\<rparr>"

definition ex_bob :: User where
  "ex_bob = \<lparr>User.user_id = 2, username = ''bob'', email = None,
     hashed_password = None, salary = 0, is_active = True,
     User.created_at = ymd2ord 2025 1 1 * us_per_day, updated_at = ymd2ord 2025 1 1 * us_per_day\<rparr>"

definition ex_verify :: "string \<Rightarrow> string \<Rightarrow> bool" where
  "ex_verify password h = (h = ''hash-of-'' @ password)"

definition ex_january :: Expense where
  "ex_january = \<lparr>expense_id = 1, user_id = 1, name = ''Groceries'', amount = 300,
     category = FOOD, created_at = ymd2ord 2025 1 15 * us_per_day + 36000 * us_per_second\<rparr>"

definition ex_february :: Expense where
  "ex_february = \<lparr>expense_id = 2, user_id = 1, name = ''Bus pass'', amount = 200,
     category = TRANSPORT, created_at = ymd2ord 2025 2 1 * us_per_day\<rparr>"

definition ex_june :: Expense where
  "ex_june = \<lparr>expense_id = 3, user_id = 1, name = ''Cinema'', amount = 50,
     category = ENTERTAINMENT, created_at = ymd2ord 2025 6 10 * us_per_day + 72000 * us_per_second\<rparr>"

definition ex_db :: db where
  "ex_db = \<lparr>users = [ex_alice, ex_bob], expenses = [ex_january, ex_february, ex_june]\<rparr>"

text \<open>An expense of the given amount and category; the float nearest to a decimal.\<close>

definition ex_expense :: "int \<Rightarrow> rat \<Rightarrow> ExpenseCategory \<Rightarrow> Expense" where
  "ex_expense i a c = \<lparr>expense_id = i, user_id = 1, name = ''item'', amount = a,
     category = c, created_at = ymd2ord 2025 1 15 * us_per_day + i\<rparr>"

text \<open>
  The floats \<open>0.1\<close>, \<open>0.2\<close>, \<open>0.3\<close> and \<open>0.4\<close>, written out as the rationals they are.
\<close>

definition f01 :: rat where
  "f01 = 3602879701896397 / 36028797018963968"

definition f02 :: rat where
  "f02 = 3602879701896397 / 18014398509481984"

definition f03 :: rat where
  "f03 = 5404319552844595 / 18014398509481984"

definition f04 :: rat where
  "f04 = 3602879701896397 / 9007199254740992"

definition ex_tenths :: "Expense list" where
  "ex_tenths = [ex_expense 1 f01 FOOD, ex_expense 2 f02 FOOD, ex_expense 3 f03 FOOD]"

definition ex_mixed :: "Expense list" where
  "ex_mixed = [ex_expense 1 f01 FOOD, ex_expense 2 f01 TRANSPORT, ex_expense 3 f04 FOOD]"

definition ex_mixed_summary :: BudgetSummary where
  "ex_mixed_summary = \<lparr>user_id = 1, total_salary = 1000,
     total_expense = 5404319552844595 / 9007199254740992,
     remaining_amount = 8790815366394675 / 8796093022208,
     category_breakdown = \<lparr>Food = 1 / 2, Transport = f01, Entertainment = 0, Utilities = 0,
       Other = 0\<rparr>\<rparr>"

text \<open>
  Amounts that add exactly without being whole numbers, 150.50 Food and 20.25 Transport;
  and amounts that reach \<open>2^53\<close>, where adding 1 is lost to rounding.
\<close>

definition ex_quarters :: "Expense list" where
  "ex_quarters = [ex_expense 1 (301 / 2) FOOD, ex_expense 2 (81 / 4) TRANSPORT]"

definition ex_quarters_summary :: BudgetSummary where
  "ex_quarters_summary = \<lparr>user_id = 1, total_salary = 1000, total_expense = 683 / 4,
     remaining_amount = 3317 / 4,
     category_breakdown = \<lparr>Food = 301 / 2, Transport = 81 / 4, Entertainment = 0, Utilities = 0,
       Other = 0\<rparr>\<rparr>"

definition two53 :: rat where
  "two53 = 9007199254740992"

definition ex_large :: "Expense list" where
  "ex_large = [ex_expense 1 two53 FOOD, ex_expense 2 1 FOOD, ex_expense 3 1 FOOD,
               ex_expense 4 1 TRANSPORT, ex_expense 5 1 TRANSPORT]"

definition ex_large_summary :: BudgetSummary where
  "ex_large_summary = \<lparr>user_id = 1, total_salary = 1000, total_expense = two53,
     remaining_amount = 1000 - two53,
     category_breakdown = \<lparr>Food = two53, Transport = 2, Entertainment = 0, Utilities = 0,
       Other = 0\<rparr>\<rparr>"

text \<open>The database of the specification's budget example, and one with an overspent budget.\<close>

definition ex_budget_db :: db where
  "ex_budget_db = \<lparr>users = [ex_alice], expenses = [ex_january, ex_february]\<rparr>"

definition ex_overspent_db :: db where
  "ex_overspent_db = \<lparr>users = [ex_alice\<lparr>salary := 100\<rparr>], expenses = [ex_january]\<rparr>"

text \<open>Filters that set several range selectors at once.\<close>

definition ex_filter_all :: ExpenseFilter where
  "ex_filter_all = \<lparr>day = Some (ymd2ord 2025 6 10), week = Some 3, month = Some 2,
     year = Some 2025, category = Some ENTERTAINMENT\<rparr>"

definition ex_filter_week_month :: ExpenseFilter where
  "ex_filter_week_month = \<lparr>day = None, week = Some 3, month = Some 2, year = Some 2025,
     category = None\<rparr>"

definition ex_filter_month :: "int \<Rightarrow> ExpenseFilter" where
  "ex_filter_month m = \<lparr>day = None, week = None, month = Some m, year = Some 2025,
     category = None\<rparr>"

definition ex_no_update :: ExpenseUpdate where
  "ex_no_update = \<lparr>name = Unset, amount = Unset, category = Unset\<rparr>"

section \<open>Lemmas\<close>

subsection \<open>Validation of the filter\<close>

lemmas init_defs = ExpenseFilter_init_def record_field_def check_ge_le_def ebind_def
  validate_month_requires_year_def validate_week_requires_year_def info_data_get_def opt_value_def

lemma week_rejected:
  "week raw \<noteq> None \<Longrightarrow>
   \<exists>fs. ExpenseFilter_init raw = Inl (ValidationError fs) \<and> ''week'' \<in> set fs"
  by (cases "week raw") (auto simp: init_defs Let_def split: option.splits sum.splits)

lemma month_rejected:
  "month raw \<noteq> None \<Longrightarrow>
   \<exists>fs. ExpenseFilter_init raw = Inl (ValidationError fs) \<and> ''month'' \<in> set fs"
  by (cases "month raw") (auto simp: init_defs Let_def split: option.splits sum.splits)

subsection \<open>Looking rows up\<close>

lemma filter_distinct_key:
  "distinct (map f xs) \<Longrightarrow> x \<in> set xs \<Longrightarrow> filter (\<lambda>y. f y = f x) xs = [x]"
proof (induction xs)
  case Nil
  then show ?case by simp
next
  case (Cons a xs)
  show ?case
  proof (cases "a = x")
    case True
    with Cons.prems have "\<forall>y \<in> set xs. f y \<noteq> f x" by (auto simp: image_iff)
    then have "filter (\<lambda>y. f y = f x) xs = []" by (simp add: filter_empty_conv)
    with True show ?thesis by simp
  next
    case False
    with Cons.prems have "x \<in> set xs" "f a \<noteq> f x" "distinct (map f xs)" by (auto simp: image_iff)
    with Cons.IH show ?thesis by simp
  qed
qed

lemma scalar_unique:
  "distinct (map f xs) \<Longrightarrow> x \<in> set xs \<Longrightarrow>
   scalar_one_or_none (filter (\<lambda>y. f y = f x) xs) = Inr (Some x)"
  by (simp add: filter_distinct_key scalar_one_or_none_def)

lemma scalar_absent:
  "\<forall>y \<in> set xs. f y \<noteq> k \<Longrightarrow> scalar_one_or_none (filter (\<lambda>y. f y = k) xs) = Inr None"
  by (simp add: filter_empty_conv scalar_one_or_none_def)

lemma auth_absent:
  "\<forall>u \<in> set (users d). username u \<noteq> un \<Longrightarrow> authenticate_user vp d un pw = Inr None"
  by (simp add: authenticate_user_def get_user_by_username_def scalar_one_or_none_def
        filter_empty_conv ebind_def)

lemma auth_present:
  "distinct (map username (users d)) \<Longrightarrow> u \<in> set (users d) \<Longrightarrow>
   authenticate_user vp d (username u) pw =
     Inr (if no_stored_credential u \<or> \<not> vp pw (the (hashed_password u)) then None else Some u)"
  by (auto simp: authenticate_user_def get_user_by_username_def scalar_unique ebind_def
        no_stored_credential_def split: option.splits)

lemma get_expense_unique:
  "distinct (map expense_id (expenses d)) \<Longrightarrow> e \<in> set (expenses d) \<Longrightarrow>
   get_expense_by_id d (expense_id e) = Inr (Some e)"
  by (simp add: get_expense_by_id_def scalar_unique)

lemma get_expense_absent:
  "\<forall>e \<in> set (expenses d). expense_id e \<noteq> eid \<Longrightarrow> get_expense_by_id d eid = Inr None"
  by (simp add: get_expense_by_id_def scalar_one_or_none_def filter_empty_conv)

lemma replace_row_unique:
  assumes "distinct (map expense_id (expenses d))" "e \<in> set (expenses d)" "expense_id e' = expense_id e"
  shows "replace_row e' d = d\<lparr>expenses := map (\<lambda>x. if x = e then e' else x) (expenses d)\<rparr>"
proof -
  have "\<And>x. x \<in> set (expenses d) \<Longrightarrow> (expense_id x = expense_id e) = (x = e)"
    using assms(1,2) by (metis distinct_map inj_onD)
  then have "map (\<lambda>x. if expense_id x = expense_id e' then e' else x) (expenses d)
             = map (\<lambda>x. if x = e then e' else x) (expenses d)"
    using assms(3) by (intro map_cong) auto
  then show ?thesis by (simp add: replace_row_def)
qed

subsection \<open>Calendar arithmetic\<close>

lemma div_pred:
  assumes k: "0 < k"
  shows "(y::int) div k = (y - 1) div k + (if k dvd y then 1 else 0)"
proof (cases "k dvd y")
  case True
  then have "k * (y div k) = y" by simp
  then have "y - 1 = k * (y div k - 1) + (k - 1)" by (simp add: right_diff_distrib)
  then have "(y - 1) div k = y div k - 1"
    using k int_div_pos_eq [of "y - 1" k "y div k - 1" "k - 1"] by simp
  with True show ?thesis by simp
next
  case False
  then have "y mod k \<noteq> 0" by (simp add: dvd_eq_mod_eq_0)
  then have r: "0 \<le> y mod k - 1" "y mod k - 1 < k"
    using k pos_mod_sign [of k y] pos_mod_bound [of k y] by linarith+
  have "y - 1 = k * (y div k) + (y mod k - 1)" using mult_div_mod_eq [of k y] by linarith
  then have "(y - 1) div k = y div k"
    using r int_div_pos_eq [of "y - 1" k "y div k" "y mod k - 1"] by simp
  with False show ?thesis by simp
qed

lemma days_before_year_Suc:
  "days_before_year (y + 1) = days_before_year y + 365 + (if is_leap y then 1 else 0)"
proof -
  have d4: "y div 4 = (y - 1) div 4 + (if 4 dvd y then 1 else 0)"
    by (rule div_pred) simp
  have d100: "y div 100 = (y - 1) div 100 + (if 100 dvd y then 1 else 0)"
    by (rule div_pred) simp
  have d400: "y div 400 = (y - 1) div 400 + (if 400 dvd y then 1 else 0)"
    by (rule div_pred) simp
  have i1: "400 dvd y \<Longrightarrow> 100 dvd y" by (rule dvd_trans [of 100 400 y]) simp_all
  have i2: "100 dvd y \<Longrightarrow> 4 dvd y" by (rule dvd_trans [of 4 100 y]) simp_all
  have leap: "is_leap y = (4 dvd y \<and> (\<not> 100 dvd y \<or> 400 dvd y))"
    by (simp add: is_leap_def mod_eq_0_iff_dvd)
  have "days_before_year (y + 1) = y * 365 + y div 4 - y div 100 + y div 400"
    by (simp add: days_before_year_def)
  also have "\<dots> = days_before_year y + 365 + (if 4 dvd y then 1 else 0) - (if 100 dvd y then 1 else 0)
                    + (if 400 dvd y then 1 else 0)"
    unfolding days_before_year_def Let_def by (simp only: d4 d100 d400) (simp add: left_diff_distrib)
  also have "\<dots> = days_before_year y + 365 + (if is_leap y then 1 else 0)"
    using i1 i2 unfolding leap by (cases "4 dvd y"; cases "100 dvd y"; cases "400 dvd y") simp_all
  finally show ?thesis .
qed

lemma days_before_year_bounds:
  assumes "1 \<le> y" "y \<le> 9999"
  shows "0 \<le> days_before_year y \<and> days_before_year y \<le> 365 * (y - 1) + 2523"
proof -
  have a: "0 \<le> (y - 1) div 400" "(y - 1) div 400 \<le> 24" "(y - 1) div 4 \<le> 2499"
    "0 \<le> (y - 1) div 100" using assms by auto
  have b: "(y - 1) div 100 \<le> (y - 1) div 4" using assms by (intro zdiv_mono2) auto
  show ?thesis using a b by (simp add: days_before_year_def Let_def)
qed

lemma us_per_day_pos: "0 < us_per_day"
  by (simp add: us_per_day_def us_per_second_def)

lemma mk_datetime_first:
  "1 \<le> y \<Longrightarrow> y \<le> 9999 \<Longrightarrow> 1 \<le> m \<Longrightarrow> m \<le> 12 \<Longrightarrow>
   mk_datetime y m 1 = Inr (ymd2ord y m 1 * us_per_day)"
  by (simp add: mk_datetime_def mk_date_def ebind_def days_in_month_def DAYS_IN_MONTH_def)

lemma month_cases:
  assumes "1 \<le> m" "m \<le> 12"
  shows "m = 1 \<or> m = 2 \<or> m = 3 \<or> m = 4 \<or> m = 5 \<or> m = 6 \<or> m = 7 \<or> m = 8 \<or> m = 9
         \<or> m = 10 \<or> m = 11 \<or> m = (12::int)"
proof -
  have "m = 1 \<or> m = 2 \<or> m = 3 \<or> m = 4 \<or> m = 5 \<or> m = 6 \<or> 7 \<le> m" using assms(1) by arith
  moreover have "7 \<le> m \<Longrightarrow> m = 7 \<or> m = 8 \<or> m = 9 \<or> m = 10 \<or> m = 11 \<or> m = 12"
    using assms(2) by arith
  ultimately show ?thesis by blast
qed

lemma next_month:
  assumes "1 \<le> m" "m < 12"
  shows "ymd2ord y (m + 1) 1 = ymd2ord y m (days_in_month y m) + 1"
proof -
  have "m \<le> 12" using assms(2) by simp
  from month_cases [OF assms(1) this] assms(2) show ?thesis
    by (elim disjE)
      (simp_all add: ymd2ord_def days_before_month_def DAYS_BEFORE_MONTH_def days_in_month_def
       DAYS_IN_MONTH_def)
qed

lemma next_year: "ymd2ord (y + 1) 1 1 = ymd2ord y 12 (days_in_month y 12) + 1"
  by (simp add: ymd2ord_def days_before_month_def DAYS_BEFORE_MONTH_def days_in_month_def DAYS_IN_MONTH_def days_before_year_Suc)

lemma ymd2ord_bounds:
  assumes "1 \<le> y" "y \<le> 9999" "1 \<le> m" "m \<le> 12"
  shows "1 \<le> ymd2ord y m 1 \<and> ymd2ord y m 1 \<le> 365 * y + 2494"
proof -
  have "0 \<le> days_before_month y m \<and> days_before_month y m \<le> 335"
    by (simp add: days_before_month_def DAYS_BEFORE_MONTH_def)
  with days_before_year_bounds [OF assms(1,2)] show ?thesis by (simp add: ymd2ord_def)
qed

lemma datetime_min_val: "datetime_min = us_per_day"
  by (simp add: datetime_min_def ymd2ord_def days_before_year_def days_before_month_def DAYS_BEFORE_MONTH_def)

lemma datetime_max_val: "datetime_max = 3652060 * us_per_day - 1"
  by (simp add: datetime_max_def ymd2ord_def days_before_year_def days_before_month_def DAYS_BEFORE_MONTH_def is_leap_def)

lemma datetime_add_ok:
  "1 \<le> ord \<Longrightarrow> ord \<le> 3652059 \<Longrightarrow> 0 \<le> t \<Longrightarrow> t < us_per_day \<Longrightarrow>
   datetime_add dt td = Inr (ord * us_per_day + t)" if "dt + td = ord * us_per_day + t"
proof -
  assume a: "1 \<le> ord" "ord \<le> 3652059" "0 \<le> t" "t < us_per_day"
  show ?thesis using that a
    by (simp add: datetime_add_def datetime_min_val datetime_max_val Let_def us_per_day_def
          us_per_second_def)
qed

lemma week_condition_ok:
  assumes "1 \<le> y" "y \<le> 9998" "1 \<le> n" "n \<le> 53"
  shows "week_condition y n = Inr (CreatedBetween (fst (spec_week_range y n)) (snd (spec_week_range y n)))"
proof -
  have b: "1 \<le> ymd2ord y 1 1" "ymd2ord y 1 1 \<le> 365 * y + 2159"
    using days_before_year_bounds [of y] assms
    by (simp_all add: ymd2ord_def days_before_month_def DAYS_BEFORE_MONTH_def)
  define start where "start = ymd2ord y 1 1 + (n - 1) * 7"
  have s: "1 \<le> start" "start + 6 \<le> 3652059" using b assms by (simp_all add: start_def)
  have td: "mk_timedelta (n - 1) 0 0 0 0 = Inr ((n - 1) * 7 * us_per_day)"
    using assms us_per_day_pos by (simp add: mk_timedelta_def Let_def)
  have td_end: "mk_timedelta 0 6 23 59 59 = Inr (6 * us_per_day + 86399 * us_per_second)"
    by (simp add: mk_timedelta_def Let_def us_per_day_def us_per_second_def)
  have a1: "datetime_add (ymd2ord y 1 1 * us_per_day) ((n - 1) * 7 * us_per_day) = Inr (start * us_per_day + 0)"
    using s by (intro datetime_add_ok) (simp_all add: start_def algebra_simps us_per_day_pos)
  have a2: "datetime_add (start * us_per_day) (6 * us_per_day + 86399 * us_per_second)
            = Inr ((start + 6) * us_per_day + 86399 * us_per_second)"
    using s by (intro datetime_add_ok) (simp_all add: algebra_simps us_per_day_def us_per_second_def)
  show ?thesis
    using assms td td_end a1 a2
    by (simp add: week_condition_def mk_datetime_first ebind_def spec_week_range_def Let_def start_def
          algebra_simps us_per_day_def us_per_second_def)
qed

lemma month_condition_ok:
  assumes "1 \<le> y" "y \<le> 9998" "1 \<le> m" "m \<le> 12"
  shows "month_condition y m = Inr (CreatedBetween (fst (spec_month_range y m)) (snd (spec_month_range y m)))"
proof -
  define lastd where "lastd = ymd2ord y m (days_in_month y m)"
  have dim: "28 \<le> days_in_month y m" "days_in_month y m \<le> 31"
    by (simp_all add: days_in_month_def DAYS_IN_MONTH_def)
  have "lastd = ymd2ord y m 1 + (days_in_month y m - 1)" by (simp add: lastd_def ymd2ord_def)
  with ymd2ord_bounds [of y m] assms dim have l: "1 \<le> lastd" "lastd \<le> 3652059" by simp_all
  have start: "mk_datetime y m 1 = Inr (ymd2ord y m 1 * us_per_day)"
    using assms by (simp add: mk_datetime_first)
  have td: "mk_timedelta 0 0 0 0 1 = Inr us_per_second"
    by (simp add: mk_timedelta_def Let_def us_per_day_def us_per_second_def)
  have step_back: "datetime_add ((lastd + 1) * us_per_day) (- us_per_second) = Inr (lastd * us_per_day + 86399 * us_per_second)"
    using l by (intro datetime_add_ok) (simp_all add: algebra_simps us_per_day_def us_per_second_def)
  show ?thesis
  proof (cases "m = 12")
    case True
    have "mk_datetime (y + 1) 1 1 = Inr ((lastd + 1) * us_per_day)"
      using assms True by (simp add: mk_datetime_first next_year lastd_def)
    with True start td step_back show ?thesis
      by (simp add: month_condition_def ebind_def spec_month_range_def lastd_def)
  next
    case False
    with assms have m: "m < 12" by simp
    have "mk_datetime y (m + 1) 1 = Inr ((lastd + 1) * us_per_day)"
      using assms m by (simp add: mk_datetime_first next_month lastd_def)
    with False start td step_back show ?thesis
      by (simp add: month_condition_def ebind_def spec_month_range_def lastd_def)
  qed
qed

lemma filter_conditions_resolved:
  assumes "field_bounds f"
  shows "filter_conditions f =
     Inr ((case spec_range f of None \<Rightarrow> [] | Some (lo, hi) \<Rightarrow> [CreatedBetween lo hi])
          @ (case ExpenseFilter.category f of None \<Rightarrow> [] | Some c \<Rightarrow> [CategoryEq c]))"
proof (cases "day f")
  case (Some d)
  then show ?thesis
    by (simp add: filter_conditions_def spec_range_def spec_day_range_def combine_def time_min_def
          time_max_def ebind_def split: option.splits)
next
  case None
  note day = None
  show ?thesis
  proof (cases "year f")
    case None
    with day show ?thesis
      by (simp add: filter_conditions_def spec_range_def truthy_def ebind_def split: option.splits)
  next
    case (Some y)
    with assms have y: "1 \<le> y" "y \<le> 9998" "y \<noteq> 0"
      by (simp_all add: field_bounds_def within_bounds_def)
    show ?thesis
    proof (cases "week f")
      case (Some w)
      with assms have w: "1 \<le> w" "w \<le> 53" by (simp_all add: field_bounds_def within_bounds_def)
      from week_condition_ok [OF y(1,2) w] day \<open>year f = Some y\<close> Some w y show ?thesis
        by (simp add: filter_conditions_def spec_range_def truthy_def ebind_def split_beta
              split: option.splits)
    next
      case None
      note week = None
      show ?thesis
      proof (cases "month f")
        case None
        with day week \<open>year f = Some y\<close> show ?thesis
          by (simp add: filter_conditions_def spec_range_def truthy_def ebind_def split: option.splits)
      next
        case (Some m)
        with assms have m: "1 \<le> m" "m \<le> 12" by (simp_all add: field_bounds_def within_bounds_def)
        from month_condition_ok [OF y(1,2) m] day week \<open>year f = Some y\<close> Some m y show ?thesis
          by (simp add: filter_conditions_def spec_range_def truthy_def ebind_def split_beta
                split: option.splits)
      qed
    qed
  qed
qed

lemma get_user_expenses_conditions:
  assumes "verify_user_exists d uid = Inr u" "filter_conditions f = Inr cs"
  shows "get_user_expenses d uid (Some f) =
     Inr (order_by_created_at_desc
            (filter (\<lambda>e. Expense.user_id e = uid \<and> list_all (\<lambda>c. holds c e) cs) (expenses d)))"
  using assms by (simp add: get_user_expenses_def ebind_def)

lemma holds_resolved:
  "list_all (\<lambda>c. holds c e)
     ((case r of None \<Rightarrow> [] | Some (lo, hi) \<Rightarrow> [CreatedBetween lo hi])
      @ (case c of None \<Rightarrow> [] | Some c' \<Rightarrow> [CategoryEq c']))
   = (in_range r e \<and> in_category c e)"
  by (simp add: in_range_def in_category_def split: option.splits prod.splits)

subsection \<open>Float arithmetic\<close>

lemma two_powi_pos: "0 < two_powi s"
  by (simp add: two_powi_def)

lemma round_half_even_nonneg: "0 \<le> q \<Longrightarrow> 0 \<le> round_half_even q"
proof -
  assume "0 \<le> q"
  then have "0 \<le> \<lfloor>q\<rfloor>" by simp
  then show ?thesis by (simp add: round_half_even_def Let_def)
qed

lemma round_half_even_of_int: "round_half_even (of_int k) = k"
  by (simp add: round_half_even_def Let_def)

lemma float_round_nonneg: "0 \<le> q \<Longrightarrow> 0 \<le> float_round q"
  by (simp add: float_round_def Let_def two_powi_pos round_half_even_nonneg less_imp_le)

lemma py_round2_nonneg: "0 \<le> x \<Longrightarrow> 0 \<le> py_round2 x"
  by (simp add: py_round2_def float_round_nonneg round_half_even_nonneg)

lemma foldl_fadd_nonneg: "0 \<le> acc \<Longrightarrow> list_all (\<lambda>x. 0 \<le> x) xs \<Longrightarrow> 0 \<le> foldl fadd acc xs"
  by (induction xs arbitrary: acc) (simp_all add: fadd_def float_round_nonneg)

lemma bitlen_le: "n < 2 ^ m \<Longrightarrow> bitlen n \<le> int m"
proof (induction m arbitrary: n)
  case 0
  then have "n \<le> 0" by simp
  then show ?case by (subst bitlen.simps) simp
next
  case (Suc m)
  show ?case
  proof (cases "n \<le> 0")
    case True
    then show ?thesis by (subst bitlen.simps) simp
  next
    case False
    from Suc.prems have "n div 2 < 2 ^ m" by simp
    then have "bitlen (n div 2) \<le> int m" by (rule Suc.IH)
    with False show ?thesis by (subst bitlen.simps) simp
  qed
qed

lemma bitlen_1: "bitlen 1 = 1"
  by (subst bitlen.simps, subst bitlen.simps) simp

lemma ilog2_of_int_le: "n < 2 ^ m \<Longrightarrow> ilog2 (of_int n) \<le> int m - 1"
  using bitlen_le [of n m] by (simp add: ilog2_def quotient_of_int bitlen_1 Let_def)

lemma float_round_int_small:
  assumes "0 \<le> n" "n < 2 ^ 53"
  shows "float_round (of_int n) = of_int n"
proof (cases "n = 0")
  case True
  then show ?thesis by (simp add: float_round_def)
next
  case False
  define s where "s = max (ilog2 \<bar>of_int n\<bar> - 52) (- 1074)"
  have abs: "\<bar>of_int n :: rat\<bar> = of_int n" using assms(1) by simp
  have "ilog2 (of_int n) \<le> 52" using ilog2_of_int_le [of n 53] assms(2) by simp
  then have s: "s \<le> 0" by (simp add: s_def abs)
  define j where "j = nat (- s)"
  have tp: "two_powi s = 1 / 2 ^ j"
  proof (cases "s = 0")
    case True
    then show ?thesis by (simp add: two_powi_def j_def)
  next
    case False
    with s show ?thesis by (simp add: two_powi_def j_def)
  qed
  have "of_int n / two_powi s = (of_int (n * 2 ^ j) :: rat)" by (simp add: tp)
  then have "round_half_even (of_int n / two_powi s) = n * 2 ^ j"
    by (simp only: round_half_even_of_int)
  then have "of_int (round_half_even (of_int n / two_powi s)) * two_powi s = (of_int n :: rat)"
    by (simp add: tp)
  with False show ?thesis by (simp add: float_round_def Let_def s_def)
qed

lemma float_round_2_53: "float_round 9007199254740992 = 9007199254740992"
  by code_simp

lemma float_round_int:
  assumes "0 \<le> n" "n \<le> 2 ^ 53"
  shows "float_round (of_int n) = of_int n"
proof (cases "n = 2 ^ 53")
  case True
  then show ?thesis using float_round_2_53 by simp
next
  case False
  with assms show ?thesis by (intro float_round_int_small) simp_all
qed

lemma sum_list_nonneg': "list_all (\<lambda>x. 0 \<le> x \<and> P x) xs \<Longrightarrow> 0 \<le> sum_list (xs :: rat list)"
  by (induction xs) simp_all

lemma foldl_fadd_exact:
  assumes "0 \<le> a" "list_all (\<lambda>x. 0 \<le> x \<and> of_int \<lfloor>x\<rfloor> = x) xs"
    and "of_int a + sum_list xs \<le> 2 ^ 53"
  shows "foldl fadd (of_int a) xs = of_int a + sum_list xs"
  using assms
proof (induction xs arbitrary: a)
  case Nil
  then show ?case by simp
next
  case (Cons x xs)
  define n where "n = \<lfloor>x\<rfloor>"
  from Cons.prems(2) have h: "0 \<le> x" "of_int \<lfloor>x\<rfloor> = x"
    and rest: "list_all (\<lambda>x. 0 \<le> x \<and> of_int \<lfloor>x\<rfloor> = x) xs"
    unfolding list.pred_inject by blast+
  have x: "x = of_int n" "0 \<le> n" using h by (simp_all only: n_def zero_le_floor)
  have nn: "0 \<le> sum_list xs" using rest by (rule sum_list_nonneg')
  have le: "(of_int (a + n) :: rat) + sum_list xs \<le> 2 ^ 53" using Cons.prems(3) x(1) by simp
  with nn have "(of_int (a + n) :: rat) \<le> 2 ^ 53" by linarith
  then have "(of_int (a + n) :: rat) \<le> of_int (2 ^ 53)" by simp
  then have b: "a + n \<le> 2 ^ 53" by (simp only: of_int_le_iff)
  have "fadd (of_int a) x = of_int (a + n)"
    using float_round_int [of "a + n"] b Cons.prems(1) x by (simp add: fadd_def)
  moreover have "foldl fadd (of_int (a + n)) xs = of_int (a + n) + sum_list xs"
    using Cons.prems(1) x(2) rest le by (intro Cons.IH) simp_all
  ultimately show ?case using x(1) by simp
qed

lemma py_sum_exact: "whole_amounts xs \<Longrightarrow> py_sum xs = sum_list xs"
  using foldl_fadd_exact [of 0 xs] by (simp add: whole_amounts_def py_sum_def)

lemma category_totals_fold:
  "foldl (\<lambda>totals e. totals(Expense.category e := fadd (totals (Expense.category e)) (Expense.amount e))) t es c
   = foldl fadd (t c) (map Expense.amount (filter (\<lambda>e. Expense.category e = c) es))"
  by (induction es arbitrary: t) simp_all

lemma category_totals_py_sum:
  "category_totals es c = py_sum (map Expense.amount (filter (\<lambda>e. Expense.category e = c) es))"
  by (simp add: category_totals_def py_sum_def category_totals_fold)

lemma sum_list_filter_le:
  "list_all (\<lambda>x. 0 \<le> f x \<and> P x) xs \<Longrightarrow> sum_list (map f (filter Q xs)) \<le> (sum_list (map f xs) :: rat)"
  by (induction xs) (auto simp: add_increasing)

lemma whole_amounts_filter:
  "whole_amounts (map Expense.amount es) \<Longrightarrow> whole_amounts (map Expense.amount (filter Q es))"
proof -
  assume w: "whole_amounts (map Expense.amount es)"
  then have a: "list_all (\<lambda>e. 0 \<le> Expense.amount e \<and> of_int \<lfloor>Expense.amount e\<rfloor> = Expense.amount e) es"
    by (simp add: whole_amounts_def list_all_iff)
  then have "sum_list (map Expense.amount (filter Q es)) \<le> sum_list (map Expense.amount es)"
    by (rule sum_list_filter_le)
  with w a show ?thesis by (auto simp: whole_amounts_def list_all_iff)
qed

lemma category_totals_exact:
  "whole_amounts (map Expense.amount es) \<Longrightarrow>
   category_totals es c = sum_list (map Expense.amount (filter (\<lambda>e. Expense.category e = c) es))"
  by (simp add: category_totals_py_sum py_sum_exact whole_amounts_filter)

lemma sum_by_category:
  "sum_list (map Expense.amount (filter (\<lambda>e. Expense.category e = FOOD) es))
   + sum_list (map Expense.amount (filter (\<lambda>e. Expense.category e = TRANSPORT) es))
   + sum_list (map Expense.amount (filter (\<lambda>e. Expense.category e = ENTERTAINMENT) es))
   + sum_list (map Expense.amount (filter (\<lambda>e. Expense.category e = UTILITIES) es))
   + sum_list (map Expense.amount (filter (\<lambda>e. Expense.category e = OTHER) es))
   = sum_list (map Expense.amount es)"
proof (induction es)
  case Nil
  then show ?case by simp
next
  case (Cons e es)
  then show ?case by (cases "Expense.category e") simp_all
qed

lemma whole_amounts_perm:
  assumes "mset xs = mset ys" "whole_amounts (map Expense.amount xs)"
  shows "whole_amounts (map Expense.amount ys)"
    and "sum_list (map Expense.amount (filter Q xs)) = sum_list (map Expense.amount (filter Q ys))"
proof -
  have s: "set xs = set ys" using assms(1) by (rule mset_eq_setD)
  have "mset (map Expense.amount xs) = mset (map Expense.amount ys)" using assms(1) by simp
  then have "sum_mset (mset (map Expense.amount xs)) = sum_mset (mset (map Expense.amount ys))" by simp
  then have "sum_list (map Expense.amount xs) = sum_list (map Expense.amount ys)"
    by (simp only: sum_mset_sum_list)
  with assms(2) s show "whole_amounts (map Expense.amount ys)"
    by (simp add: whole_amounts_def list_all_iff)
  have "mset (map Expense.amount (filter Q xs)) = mset (map Expense.amount (filter Q ys))"
    using assms(1) by simp
  then have "sum_mset (mset (map Expense.amount (filter Q xs))) = sum_mset (mset (map Expense.amount (filter Q ys)))"
    by simp
  then show "sum_list (map Expense.amount (filter Q xs)) = sum_list (map Expense.amount (filter Q ys))"
    by (simp only: sum_mset_sum_list)
qed

lemma aggregate_perm:
  assumes "mset xs = mset ys" "whole_amounts (map Expense.amount xs)"
  shows "aggregate uid sal xs = aggregate uid sal ys"
proof -
  note w = whole_amounts_perm [OF assms]
  have "py_sum (map Expense.amount xs) = py_sum (map Expense.amount ys)"
    using w(2) [of "\<lambda>_. True"] assms(2) w(1) by (simp add: py_sum_exact)
  moreover have "category_totals xs = category_totals ys"
    using w(2) assms(2) w(1) by (intro ext) (simp add: category_totals_exact)
  ultimately show ?thesis by (simp add: aggregate_def)
qed

subsection \<open>The aggregation\<close>

lemma category_totals_nonneg:
  assumes "list_all (\<lambda>e. 0 \<le> Expense.amount e) es"
  shows "0 \<le> category_totals es c"
proof -
  have "list_all (\<lambda>x. 0 \<le> x) (map Expense.amount (filter (\<lambda>e. Expense.category e = c) es))"
    using assms by (simp add: list_all_iff)
  then show ?thesis by (simp add: category_totals_py_sum py_sum_def foldl_fadd_nonneg)
qed

lemma aggregate_ok:
  assumes "0 \<le> sal" "list_all (\<lambda>e. 0 \<le> Expense.amount e) es"
  shows "aggregate uid sal es =
    Inr \<lparr>user_id = uid, total_salary = sal,
         total_expense = py_round2 (py_sum (map Expense.amount es)),
         remaining_amount = py_round2 (fsub sal (py_sum (map Expense.amount es))),
         category_breakdown = \<lparr>Food = category_totals es FOOD, Transport = category_totals es TRANSPORT,
           Entertainment = category_totals es ENTERTAINMENT, Utilities = category_totals es UTILITIES,
           Other = category_totals es OTHER\<rparr>\<rparr>"
proof -
  have "list_all (\<lambda>x. 0 \<le> x) (map Expense.amount es)" using assms(2) by (simp add: list_all_iff)
  then have "0 \<le> py_sum (map Expense.amount es)" by (simp add: py_sum_def foldl_fadd_nonneg)
  then have "0 \<le> py_round2 (py_sum (map Expense.amount es))" by (rule py_round2_nonneg)
  then show ?thesis
    using assms(1) category_totals_nonneg [OF assms(2)]
    by (simp add: aggregate_def CategoryBreakdown_init_def BudgetSummary_init_def check_ge0_def
          ebind_def Let_def)
qed

lemma aggregate_Inr:
  assumes "aggregate uid sal es = Inr s"
  shows "s = \<lparr>user_id = uid, total_salary = sal,
         total_expense = py_round2 (py_sum (map Expense.amount es)),
         remaining_amount = py_round2 (fsub sal (py_sum (map Expense.amount es))),
         category_breakdown = \<lparr>Food = category_totals es FOOD, Transport = category_totals es TRANSPORT,
           Entertainment = category_totals es ENTERTAINMENT, Utilities = category_totals es UTILITIES,
           Other = category_totals es OTHER\<rparr>\<rparr>"
  using assms
  by (auto simp: aggregate_def CategoryBreakdown_init_def BudgetSummary_init_def
        ebind_def Let_def split: if_splits sum.splits)

lemma whole_sum_int:
  "list_all (\<lambda>x. 0 \<le> x \<and> of_int \<lfloor>x\<rfloor> = x) xs \<Longrightarrow> of_int \<lfloor>sum_list xs\<rfloor> = (sum_list xs :: rat)"
proof (induction xs)
  case Nil
  then show ?case by simp
next
  case (Cons x xs)
  then have h: "of_int \<lfloor>x\<rfloor> = x" "of_int \<lfloor>sum_list xs\<rfloor> = sum_list xs"
    unfolding list.pred_inject by blast+
  have "sum_list (x # xs) = of_int (\<lfloor>x\<rfloor> + \<lfloor>sum_list xs\<rfloor>)"
    by (simp only: sum_list.Cons of_int_add h)
  then show ?case by (simp only: floor_of_int)
qed

lemma py_round2_whole:
  assumes "whole_amounts xs"
  shows "py_round2 (sum_list xs) = sum_list xs"
proof -
  define n where "n = \<lfloor>sum_list xs\<rfloor>"
  have w: "list_all (\<lambda>x. 0 \<le> x \<and> of_int \<lfloor>x\<rfloor> = x) xs" "sum_list xs \<le> 2 ^ 53"
    using assms by (simp_all add: whole_amounts_def)
  have n: "sum_list xs = of_int n" using whole_sum_int [OF w(1)] by (simp only: n_def)
  have "0 \<le> sum_list xs" using w(1) by (rule sum_list_nonneg')
  then have n0: "0 \<le> n" by (simp add: n_def)
  have "(of_int n :: rat) \<le> of_int (2 ^ 53)" using w(2) n by simp
  then have n1: "n \<le> 2 ^ 53" by (simp only: of_int_le_iff)
  have "of_int n * 100 = (of_int (n * 100) :: rat)" by simp
  then have "round_half_even (of_int n * 100) = n * 100" by (simp only: round_half_even_of_int)
  then have "py_round2 (of_int n) = float_round (of_int n)" by (simp add: py_round2_def)
  with float_round_int [OF n0 n1] n show ?thesis by simp
qed

lemma get_budget_summary_aggregate:
  assumes "verify_user_exists d uid = Inr u" "get_user_expenses d uid filters = Inr es"
  shows "get_budget_summary d uid filters = aggregate uid (salary u) es"
  using assms by (simp add: get_budget_summary_def ebind_def)

lemma sorted_desc:
  "sorted_wrt (\<lambda>a b. Expense.created_at b \<le> Expense.created_at a) (order_by_created_at_desc rows)"
proof -
  have "sorted (map (\<lambda>e. - Expense.created_at e) (order_by_created_at_desc rows))"
    unfolding order_by_created_at_desc_def by (rule sorted_sort_key)
  then show ?thesis by (simp add: sorted_map)
qed

lemma get_user_expenses_total:
  assumes "verify_user_exists d uid = Inr u" "filter_bounds filters"
  shows "\<exists>rows. get_user_expenses d uid filters = Inr (order_by_created_at_desc rows)"
proof (cases filters)
  case None
  with assms(1) show ?thesis by (auto simp: get_user_expenses_def ebind_def)
next
  case (Some f)
  with assms(2) have "field_bounds f" by (simp add: filter_bounds_def)
  from get_user_expenses_conditions [OF assms(1) filter_conditions_resolved [OF this]] Some
  show ?thesis by blast
qed

subsection \<open>Exact float additions\<close>

lemma exact_fold_sum: "exact_fold acc xs \<Longrightarrow> foldl fadd acc xs = acc + sum_list xs"
  by (induction xs arbitrary: acc) (simp_all add: add.assoc)

lemma exact_py_sum: "exact_fold 0 xs \<Longrightarrow> py_sum xs = sum_list xs"
  using exact_fold_sum [of 0 xs] by (simp add: py_sum_def)

lemma whole_exact_fold:
  assumes "0 \<le> a" "list_all (\<lambda>x. 0 \<le> x \<and> of_int \<lfloor>x\<rfloor> = x) xs"
    and "of_int a + sum_list xs \<le> 2 ^ 53"
  shows "exact_fold (of_int a) xs"
  using assms
proof (induction xs arbitrary: a)
  case Nil
  then show ?case by simp
next
  case (Cons x xs)
  define n where "n = \<lfloor>x\<rfloor>"
  from Cons.prems(2) have h: "0 \<le> x" "of_int \<lfloor>x\<rfloor> = x"
    and rest: "list_all (\<lambda>x. 0 \<le> x \<and> of_int \<lfloor>x\<rfloor> = x) xs"
    unfolding list.pred_inject by blast+
  have x: "x = of_int n" "0 \<le> n" using h by (simp_all only: n_def zero_le_floor)
  have nn: "0 \<le> sum_list xs" using rest by (rule sum_list_nonneg')
  have le: "(of_int (a + n) :: rat) + sum_list xs \<le> 2 ^ 53" using Cons.prems(3) x(1) by simp
  with nn have "(of_int (a + n) :: rat) \<le> 2 ^ 53" by linarith
  then have "(of_int (a + n) :: rat) \<le> of_int (2 ^ 53)" by simp
  then have b: "a + n \<le> 2 ^ 53" by (simp only: of_int_le_iff)
  have f: "fadd (of_int a) x = of_int a + x"
    using float_round_int [of "a + n"] b Cons.prems(1) x by (simp add: fadd_def)
  have "exact_fold (of_int (a + n)) xs"
    using Cons.prems(1) x(2) rest le by (intro Cons.IH) simp_all
  then have "exact_fold (of_int a + x) xs" using x(1) by simp
  with f show ?case by simp
qed

lemma whole_exact: "whole_amounts xs \<Longrightarrow> exact_fold 0 xs"
  using whole_exact_fold [of 0 xs] by (simp add: whole_amounts_def)

lemma whole_exact_additions:
  assumes "whole_amounts (map Expense.amount es)"
  shows "exact_additions es"
  using assms whole_amounts_filter [OF assms]
  by (simp add: exact_additions_def amounts_in_def whole_exact)

lemma exact_category_totals:
  assumes "exact_additions es"
  shows "category_totals es c = sum_list (amounts_in c es)"
proof -
  have "exact_fold 0 (amounts_in c es)" using assms by (cases c) (simp_all add: exact_additions_def)
  then show ?thesis
    by (simp add: category_totals_py_sum exact_py_sum amounts_in_def [symmetric])
qed

lemma exact_total:
  "exact_additions es \<Longrightarrow> py_sum (map Expense.amount es) = sum_list (map Expense.amount es)"
  by (simp add: exact_additions_def exact_py_sum)

lemma sum_list_perm:
  assumes "mset xs = mset ys"
  shows "sum_list (map Expense.amount (filter Q xs)) = sum_list (map Expense.amount (filter Q ys))"
proof -
  have "mset (map Expense.amount (filter Q xs)) = mset (map Expense.amount (filter Q ys))"
    using assms by simp
  then have "sum_mset (mset (map Expense.amount (filter Q xs)))
             = sum_mset (mset (map Expense.amount (filter Q ys)))"
    by simp
  then show ?thesis by (simp only: sum_mset_sum_list)
qed

lemma aggregate_perm_exact:
  assumes "mset xs = mset ys" "exact_additions xs" "exact_additions ys"
  shows "aggregate uid sal xs = aggregate uid sal ys"
proof -
  have "py_sum (map Expense.amount xs) = py_sum (map Expense.amount ys)"
    using sum_list_perm [OF assms(1), of "\<lambda>_. True"] assms(2,3) by (simp add: exact_total)
  moreover have "category_totals xs = category_totals ys"
    using sum_list_perm [OF assms(1)] assms(2,3)
    by (intro ext) (simp add: exact_category_totals amounts_in_def)
  ultimately show ?thesis by (simp add: aggregate_def)
qed

lemma breakdown_values_sum: "sum_list (breakdown_values b) = breakdown_sum b"
  by (simp add: breakdown_values_def breakdown_sum_def)

lemma whole_breakdown_exact:
  assumes w: "whole_amounts (map Expense.amount es)"
  shows "exact_fold 0 (breakdown_values \<lparr>Food = category_totals es FOOD,
           Transport = category_totals es TRANSPORT, Entertainment = category_totals es ENTERTAINMENT,
           Utilities = category_totals es UTILITIES, Other = category_totals es OTHER\<rparr>)"
proof -
  have c: "0 \<le> category_totals es c \<and> of_int \<lfloor>category_totals es c\<rfloor> = category_totals es c" for c
  proof -
    from whole_amounts_filter [OF w, of "\<lambda>e. Expense.category e = c"]
    have l: "list_all (\<lambda>x. 0 \<le> x \<and> of_int \<lfloor>x\<rfloor> = x)
        (map Expense.amount (filter (\<lambda>e. Expense.category e = c) es))"
      unfolding whole_amounts_def by blast
    from sum_list_nonneg' [OF l] whole_sum_int [OF l] show ?thesis
      unfolding category_totals_exact [OF w] by blast
  qed
  have "sum_list (map Expense.amount es) \<le> 2 ^ 53"
    using w unfolding whole_amounts_def by blast
  then have s: "category_totals es FOOD + category_totals es TRANSPORT
      + category_totals es ENTERTAINMENT + category_totals es UTILITIES + category_totals es OTHER
      \<le> 2 ^ 53"
    unfolding category_totals_exact [OF w] sum_by_category .
  have "whole_amounts (breakdown_values \<lparr>Food = category_totals es FOOD,
           Transport = category_totals es TRANSPORT, Entertainment = category_totals es ENTERTAINMENT,
           Utilities = category_totals es UTILITIES, Other = category_totals es OTHER\<rparr>)"
    unfolding whole_amounts_def breakdown_values_def list.pred_inject
    using c s by (simp only: CategoryBreakdown.simps sum_list.Cons sum_list.Nil add_0_right add.assoc
                       list.pred_inject simp_thms)
  then show ?thesis by (rule whole_exact)
qed

subsection \<open>Evaluations on the example data\<close>

lemmas ex_defs = ex_db_def ex_alice_def ex_bob_def ex_january_def ex_february_def ex_june_def

lemma verify_alice: "verify_user_exists ex_db 1 = Inr ex_alice"
  by (simp add: verify_user_exists_def scalar_one_or_none_def ebind_def ex_defs)

lemma verify_alice_budget: "verify_user_exists ex_budget_db 1 = Inr ex_alice"
  by (simp add: verify_user_exists_def scalar_one_or_none_def ebind_def ex_budget_db_def ex_defs)

lemma float_literals:
  "float_round (1 / 10) = f01 \<and> float_round (2 / 10) = f02
   \<and> float_round (3 / 10) = f03 \<and> float_round (4 / 10) = f04"
  by code_simp

lemma ex_mixed_eval: "aggregate 1 1000 ex_mixed = Inr ex_mixed_summary"
  by code_simp

lemma ex_mixed_sum: "py_sum (map Expense.amount ex_mixed) = 1351079888211149 / 2251799813685248"
  by code_simp

lemma ex_mixed_float_sum: "py_sum [1 / 2, f01, 0, 0, 0] = 5404319552844595 / 9007199254740992"
  by code_simp

lemma ex_tenths_food: "category_totals ex_tenths FOOD = 1351079888211149 / 2251799813685248"
  by code_simp

lemma ex_tenths_rev_food: "category_totals (rev ex_tenths) FOOD = 5404319552844595 / 9007199254740992"
  by code_simp

lemma ex_large_eval: "aggregate 1 1000 ex_large = Inr ex_large_summary"
  by code_simp

lemma ex_large_round: "py_round2 (two53 + 2) = two53 + 2"
  by code_simp

lemma ex_large_float_sum: "py_sum [two53, 2, 0, 0, 0] = two53 + 2"
  by code_simp

lemma ex_quarters_eval: "aggregate 1 1000 ex_quarters = Inr ex_quarters_summary"
  by code_simp

lemma ex_quarters_exact: "exact_additions ex_quarters"
  by code_simp

text \<open>
  The ownership check \<open>if user_id and ...\<close> tests the truth value of the acting user id,
  so the id 0, which no stored user has, counts as no id: with it the check is skipped.
\<close>

lemma acting_id_zero_unchecked:
  "Expense.user_id ex_january \<noteq> 0
   \<and> fst (update_expense ex_db 1 \<lparr>name = Set (Some ''Taken over''), amount = Unset, category = Unset\<rparr>
          (Some 0))
       = Inr (ex_january\<lparr>Expense.name := ''Taken over''\<rparr>)
   \<and> delete_expense ex_db 1 (Some 0) = (Inr True, ex_db\<lparr>expenses := [ex_february, ex_june]\<rparr>)"
  by (simp add: update_expense_def delete_expense_def get_expense_by_id_def scalar_one_or_none_def
        not_authorized_def truthy_def setattr_def commit_expense_def replace_row_def delete_row_def
        ex_defs)

section \<open>The claims\<close>

subsection \<open>C1: the month filter\<close>

text \<open>
  Claim C1. For a user with expenses created on 2025-01-15, 2025-02-01 and 2025-06-10, the
  filter \<open>month=1, year=2025\<close> is accepted and returns exactly the first expense, and
  \<open>month=6, year=2025\<close> exactly the third.

  The code does not get that far. \<open>year\<close> is declared after \<open>week\<close> and \<open>month\<close>, so
  when \<open>validate_month_requires_year\<close> runs, \<open>info.data\<close> does not hold \<open>year\<close> yet, and
  \<open>info.data.get('year')\<close> is \<open>None\<close> although the caller supplied it: the construction of
  the filter fails and the endpoint never reaches the service. The service itself, handed
  the same filter object, returns the expected rows.
\<close>

theorem month_filter_rejected:
  "endpoint_get_user_expenses ex_db 1 None None (Some 1) (Some 2025) None
     = Inl (ValidationError [''month''])
   \<and> endpoint_get_user_expenses ex_db 1 None None (Some 6) (Some 2025) None
     = Inl (ValidationError [''month''])
   \<and> get_user_expenses ex_db 1 (Some (ex_filter_month 1)) = Inr [ex_january]
   \<and> get_user_expenses ex_db 1 (Some (ex_filter_month 6)) = Inr [ex_june]"
proof -
  have "ExpenseFilter_init (ex_filter_month 1) = Inl (ValidationError [''month''])"
    "ExpenseFilter_init (ex_filter_month 6) = Inl (ValidationError [''month''])"
    by (simp_all add: init_defs ex_filter_month_def)
  then have a: "endpoint_get_user_expenses ex_db 1 None None (Some 1) (Some 2025) None
     = Inl (ValidationError [''month''])"
     "endpoint_get_user_expenses ex_db 1 None None (Some 6) (Some 2025) None
     = Inl (ValidationError [''month''])"
    by (simp_all add: endpoint_get_user_expenses_def ex_filter_month_def ebind_def)
  have b: "get_user_expenses ex_db 1 (Some (ex_filter_month 1)) = Inr [ex_january]"
    by code_simp
  have c: "get_user_expenses ex_db 1 (Some (ex_filter_month 6)) = Inr [ex_june]"
    by code_simp
  from a b c show ?thesis by blast
qed

subsection \<open>C2: precedence of the range selectors\<close>

text \<open>
  Claim C2. When several range selectors are set in one filter, one range condition is
  applied, chosen in the order day, week, month; the category condition is applied beside
  it. For every filter object whose fields lie within their declared bounds, and every
  existing user, \<open>get_user_expenses\<close> returns the user's expenses that lie in the range the
  specification's precedence picks and in the category, newest first; the list of
  conditions it builds holds at most one range condition.
\<close>

theorem range_precedence:
  assumes "field_bounds f" and "verify_user_exists d uid = Inr u"
  shows "get_user_expenses d uid (Some f) =
           Inr (order_by_created_at_desc
                  (filter (\<lambda>e. Expense.user_id e = uid \<and> in_range (spec_range f) e
                               \<and> in_category (ExpenseFilter.category f) e) (expenses d)))
         \<and> (\<exists>cs. filter_conditions f = Inr cs \<and> length (filter is_range cs) \<le> 1)"
proof -
  note fc = filter_conditions_resolved [OF assms(1)]
  have "get_user_expenses d uid (Some f) =
           Inr (order_by_created_at_desc
                  (filter (\<lambda>e. Expense.user_id e = uid \<and> in_range (spec_range f) e
                               \<and> in_category (ExpenseFilter.category f) e) (expenses d)))"
    using get_user_expenses_conditions [OF assms(2) fc] by (simp only: holds_resolved)
  moreover have "\<exists>cs. filter_conditions f = Inr cs \<and> length (filter is_range cs) \<le> 1"
    unfolding fc by (simp split: option.splits prod.splits)
  ultimately show ?thesis by blast
qed

text \<open>
  On the example data: with day, week, month and category all set the day decides, and
  with week and month set the week decides.
\<close>

theorem range_precedence_witness:
  "field_bounds ex_filter_all \<and> field_bounds ex_filter_week_month
   \<and> verify_user_exists ex_db 1 = Inr ex_alice
   \<and> spec_range ex_filter_all = Some (spec_day_range (ymd2ord 2025 6 10))
   \<and> spec_range ex_filter_week_month = Some (spec_week_range 2025 3)
   \<and> get_user_expenses ex_db 1 (Some ex_filter_all) = Inr [ex_june]
   \<and> get_user_expenses ex_db 1 (Some ex_filter_week_month) = Inr [ex_january]"
proof -
  have b: "field_bounds ex_filter_all" "field_bounds ex_filter_week_month" by code_simp+
  have r: "spec_range ex_filter_all = Some (spec_day_range (ymd2ord 2025 6 10))"
    "spec_range ex_filter_week_month = Some (spec_week_range 2025 3)"
    by (simp_all add: spec_range_def ex_filter_all_def ex_filter_week_month_def)
  have e1: "order_by_created_at_desc
       (filter (\<lambda>e. Expense.user_id e = 1 \<and> in_range (spec_range ex_filter_all) e
                  \<and> in_category (ExpenseFilter.category ex_filter_all) e) (expenses ex_db)) = [ex_june]"
    by code_simp
  have e2: "order_by_created_at_desc
       (filter (\<lambda>e. Expense.user_id e = 1 \<and> in_range (spec_range ex_filter_week_month) e
                  \<and> in_category (ExpenseFilter.category ex_filter_week_month) e) (expenses ex_db)) = [ex_january]"
    by code_simp
  have g1: "get_user_expenses ex_db 1 (Some ex_filter_all) = Inr [ex_june]"
    using range_precedence [OF b(1) verify_alice] unfolding e1 by blast
  have g2: "get_user_expenses ex_db 1 (Some ex_filter_week_month) = Inr [ex_january]"
    using range_precedence [OF b(2) verify_alice] unfolding e2 by blast
  from b r verify_alice g1 g2 show ?thesis by blast
qed

subsection \<open>C3: the week range\<close>

text \<open>
  Claim C3. For every year \<open>y\<close> and week \<open>n\<close> in 1..53 the week filter selects exactly the
  expenses created in the closed interval from January 1st of \<open>y\<close> plus \<open>(n-1)*7\<close> days,
  00:00:00, to that start plus 6 days 23:59:59 (604799 seconds); week 1 starts on January
  1st whatever its weekday. The years are those for which Python can represent the end of
  week 53, 1 to 9998; the filter's own bounds, 2000 to 2100, lie within.
\<close>

theorem week_filter_interval:
  assumes "1 \<le> n" "n \<le> 53" "1 \<le> y" "y \<le> 9998"
    and "verify_user_exists d uid = Inr u"
    and "day f = None" "week f = Some n" "year f = Some y"
  shows "get_user_expenses d uid (Some f) =
           Inr (order_by_created_at_desc
                  (filter (\<lambda>e. Expense.user_id e = uid
                      \<and> (ymd2ord y 1 1 + (n - 1) * 7) * us_per_day \<le> Expense.created_at e
                      \<and> Expense.created_at e
                          \<le> (ymd2ord y 1 1 + (n - 1) * 7) * us_per_day + 604799 * us_per_second
                      \<and> in_category (ExpenseFilter.category f) e) (expenses d)))
         \<and> mk_datetime y 1 1 = Inr (ymd2ord y 1 1 * us_per_day)"
proof -
  have t: "truthy (Some n)" "truthy (Some y)" using assms(1,3) by (simp_all add: truthy_def)
  have fc: "filter_conditions f =
     Inr ([CreatedBetween (fst (spec_week_range y n)) (snd (spec_week_range y n))]
          @ (case ExpenseFilter.category f of None \<Rightarrow> [] | Some c \<Rightarrow> [CategoryEq c]))"
    using week_condition_ok [OF assms(3,4,1,2)] assms(6,7,8) t
    by (simp add: filter_conditions_def ebind_def split: option.splits)
  have "get_user_expenses d uid (Some f) =
           Inr (order_by_created_at_desc
                  (filter (\<lambda>e. Expense.user_id e = uid
                      \<and> (ymd2ord y 1 1 + (n - 1) * 7) * us_per_day \<le> Expense.created_at e
                      \<and> Expense.created_at e
                          \<le> (ymd2ord y 1 1 + (n - 1) * 7) * us_per_day + 604799 * us_per_second
                      \<and> in_category (ExpenseFilter.category f) e) (expenses d)))"
    using get_user_expenses_conditions [OF assms(5) fc]
    by (simp add: spec_week_range_def Let_def in_category_def split: option.splits cong: conj_cong)
  moreover have "mk_datetime y 1 1 = Inr (ymd2ord y 1 1 * us_per_day)"
    using assms(3,4) by (simp add: mk_datetime_first)
  ultimately show ?thesis by blast
qed

text \<open>
  Week 3 of 2025 starts on January 15th and selects the expense of that day.
\<close>

theorem week_filter_interval_witness:
  "verify_user_exists ex_db 1 = Inr ex_alice
   \<and> ymd2ord 2025 1 1 + (3 - 1) * 7 = ymd2ord 2025 1 15
   \<and> get_user_expenses ex_db 1 (Some ex_filter_week_month) = Inr [ex_january]"
proof -
  have f: "day ex_filter_week_month = None" "week ex_filter_week_month = Some 3"
    "year ex_filter_week_month = Some 2025"
    by (simp_all add: ex_filter_week_month_def)
  have o: "ymd2ord 2025 1 1 + (3 - 1) * 7 = ymd2ord 2025 1 15" by code_simp
  have e: "order_by_created_at_desc
             (filter (\<lambda>e. Expense.user_id e = 1
                 \<and> (ymd2ord 2025 1 1 + (3 - 1) * 7) * us_per_day \<le> Expense.created_at e
                 \<and> Expense.created_at e
                     \<le> (ymd2ord 2025 1 1 + (3 - 1) * 7) * us_per_day + 604799 * us_per_second
                 \<and> in_category (ExpenseFilter.category ex_filter_week_month) e) (expenses ex_db))
           = [ex_january]"
    by code_simp
  have "get_user_expenses ex_db 1 (Some ex_filter_week_month) = Inr [ex_january]"
    using week_filter_interval [OF _ _ _ _ verify_alice f] unfolding e by simp
  with verify_alice o show ?thesis by blast
qed

subsection \<open>C4: week or month without year\<close>

text \<open>
  Claim C4. Constructing a filter with \<open>week\<close> set and \<open>year\<close> unset fails validation, and
  so does one with \<open>month\<close> set and \<open>year\<close> unset; the failing field is reported.
\<close>

theorem filter_requires_year:
  "(week raw \<noteq> None \<and> year raw = None \<longrightarrow>
      (\<exists>fs. ExpenseFilter_init raw = Inl (ValidationError fs) \<and> ''week'' \<in> set fs))
   \<and> (month raw \<noteq> None \<and> year raw = None \<longrightarrow>
      (\<exists>fs. ExpenseFilter_init raw = Inl (ValidationError fs) \<and> ''month'' \<in> set fs))"
  using week_rejected month_rejected by blast

text \<open>
  The two filters \<open>week=3\<close> and \<open>month=1\<close>, each without a year.
\<close>

theorem filter_requires_year_witness:
  "ExpenseFilter_init \<lparr>day = None, week = Some 3, month = None, year = None, category = None\<rparr>
     = Inl (ValidationError [''week''])
   \<and> ExpenseFilter_init \<lparr>day = None, week = None, month = Some 1, year = None, category = None\<rparr>
     = Inl (ValidationError [''month''])"
  using filter_requires_year [of "\<lparr>day = None, week = Some 3, month = None, year = None, category = None\<rparr>"]
    filter_requires_year [of "\<lparr>day = None, week = None, month = Some 1, year = None, category = None\<rparr>"]
  by (simp add: init_defs)

subsection \<open>C5: totals of the budget summary\<close>

text \<open>
  Claim C5. For a user with salary \<open>s\<close> and the filtered expenses \<open>es\<close>,
  \<open>get_budget_summary\<close> returns \<open>total_expense = round(sum of amounts, 2)\<close> and
  \<open>remaining_amount = round(s - sum of amounts, 2)\<close>, which is not clamped and may be
  negative. Salary 1000 with the expenses 300 Food and 200 Transport gives total 500,
  remaining 500 and the breakdown Food 300, Transport 200, all others 0; salary 100 with
  one expense of 300 gives remaining -200. The salary and the amounts are non-negative, as
  the schemas require; the response model rejects a negative total.
\<close>

theorem budget_summary_totals:
  "(verify_user_exists d uid = Inr u \<and> get_user_expenses d uid filters = Inr es
      \<and> 0 \<le> salary u \<and> list_all (\<lambda>e. 0 \<le> Expense.amount e) es \<longrightarrow>
      (\<exists>s. get_budget_summary d uid filters = Inr s
         \<and> total_expense s = py_round2 (py_sum (map Expense.amount es))
         \<and> remaining_amount s = py_round2 (fsub (salary u) (py_sum (map Expense.amount es)))))
   \<and> get_budget_summary ex_budget_db 1 None =
        Inr \<lparr>user_id = 1, total_salary = 1000, total_expense = 500, remaining_amount = 500,
             category_breakdown = \<lparr>Food = 300, Transport = 200, Entertainment = 0,
               Utilities = 0, Other = 0\<rparr>\<rparr>
   \<and> get_budget_summary ex_overspent_db 1 None =
        Inr \<lparr>user_id = 1, total_salary = 100, total_expense = 300, remaining_amount = - 200,
             category_breakdown = \<lparr>Food = 300, Transport = 0, Entertainment = 0,
               Utilities = 0, Other = 0\<rparr>\<rparr>"
proof -
  have g: "verify_user_exists d uid = Inr u \<and> get_user_expenses d uid filters = Inr es
      \<and> 0 \<le> salary u \<and> list_all (\<lambda>e. 0 \<le> Expense.amount e) es \<longrightarrow>
      (\<exists>s. get_budget_summary d uid filters = Inr s
         \<and> total_expense s = py_round2 (py_sum (map Expense.amount es))
         \<and> remaining_amount s = py_round2 (fsub (salary u) (py_sum (map Expense.amount es))))"
  proof (intro impI, elim conjE)
    assume a: "verify_user_exists d uid = Inr u" "get_user_expenses d uid filters = Inr es"
      "0 \<le> salary u" "list_all (\<lambda>e. 0 \<le> Expense.amount e) es"
    show "\<exists>s. get_budget_summary d uid filters = Inr s
         \<and> total_expense s = py_round2 (py_sum (map Expense.amount es))
         \<and> remaining_amount s = py_round2 (fsub (salary u) (py_sum (map Expense.amount es)))"
      unfolding get_budget_summary_aggregate [OF a(1,2)] aggregate_ok [OF a(3,4)] by simp
  qed
  have e1: "get_budget_summary ex_budget_db 1 None =
        Inr \<lparr>user_id = 1, total_salary = 1000, total_expense = 500, remaining_amount = 500,
             category_breakdown = \<lparr>Food = 300, Transport = 200, Entertainment = 0,
               Utilities = 0, Other = 0\<rparr>\<rparr>"
    by code_simp
  have e2: "get_budget_summary ex_overspent_db 1 None =
        Inr \<lparr>user_id = 1, total_salary = 100, total_expense = 300, remaining_amount = - 200,
             category_breakdown = \<lparr>Food = 300, Transport = 0, Entertainment = 0,
               Utilities = 0, Other = 0\<rparr>\<rparr>"
    by code_simp
  from g e1 e2 show ?thesis by blast
qed

text \<open>
  The general statement on the database of the budget example.
\<close>

theorem budget_summary_totals_witness:
  "verify_user_exists ex_budget_db 1 = Inr ex_alice
   \<and> get_user_expenses ex_budget_db 1 None = Inr [ex_february, ex_january]
   \<and> 0 \<le> salary ex_alice
   \<and> list_all (\<lambda>e. 0 \<le> Expense.amount e) [ex_february, ex_january]
   \<and> (\<exists>s. get_budget_summary ex_budget_db 1 None = Inr s
         \<and> total_expense s = py_round2 (py_sum [200, 300])
         \<and> remaining_amount s = py_round2 (fsub 1000 (py_sum [200, 300])))"
proof -
  have h: "get_user_expenses ex_budget_db 1 None = Inr [ex_february, ex_january]" by code_simp
  have p: "0 \<le> salary ex_alice" "list_all (\<lambda>e. 0 \<le> Expense.amount e) [ex_february, ex_january]"
    by (simp_all add: ex_defs)
  have m: "map Expense.amount [ex_february, ex_january] = [200, 300]" "salary ex_alice = 1000"
    by (simp_all add: ex_defs)
  from budget_summary_totals [of ex_budget_db 1 ex_alice None "[ex_february, ex_january]"]
    verify_alice_budget h p
  have "\<exists>s. get_budget_summary ex_budget_db 1 None = Inr s
         \<and> total_expense s = py_round2 (py_sum (map Expense.amount [ex_february, ex_january]))
         \<and> remaining_amount s = py_round2 (fsub (salary ex_alice)
               (py_sum (map Expense.amount [ex_february, ex_january])))"
    by blast
  then have "\<exists>s. get_budget_summary ex_budget_db 1 None = Inr s
         \<and> total_expense s = py_round2 (py_sum [200, 300])
         \<and> remaining_amount s = py_round2 (fsub 1000 (py_sum [200, 300]))"
    unfolding m .
  with verify_alice_budget h p show ?thesis by blast
qed

subsection \<open>C6: the breakdown and the total\<close>

text \<open>
  Claim C6, as the code has it. For non-negative salary and amounts the aggregation
  returns a summary. Its total is the rounded float sum of all amounts; each category
  reports the unrounded float sum of its own amounts, and 0 when it has none.
  When every float addition of the aggregation is exact, the five values add up to the
  unrounded total, and their sum rounded to 2 decimals is the total of the summary; when
  adding the five values as floats is exact too, the same holds of their float sum.
  For whole-number amounts summing to at most \<open>2^53\<close> all these additions are exact, and
  the total of the summary equals the sum of the five values.
\<close>

theorem breakdown_adds_up:
  "0 \<le> sal \<and> list_all (\<lambda>e. 0 \<le> Expense.amount e) es \<longrightarrow>
     (\<exists>s. aggregate uid sal es = Inr s
        \<and> total_expense s = py_round2 (py_sum (map Expense.amount es))
        \<and> (\<forall>c. breakdown_value c (category_breakdown s) = py_sum (amounts_in c es)
                \<and> (amounts_in c es = [] \<longrightarrow> breakdown_value c (category_breakdown s) = 0))
        \<and> (exact_additions es \<longrightarrow>
             breakdown_sum (category_breakdown s) = py_sum (map Expense.amount es)
             \<and> py_round2 (breakdown_sum (category_breakdown s)) = total_expense s
             \<and> (exact_fold 0 (breakdown_values (category_breakdown s)) \<longrightarrow>
                  py_sum (breakdown_values (category_breakdown s)) = py_sum (map Expense.amount es)
                  \<and> py_round2 (py_sum (breakdown_values (category_breakdown s))) = total_expense s))
        \<and> (whole_amounts (map Expense.amount es) \<longrightarrow>
             exact_additions es \<and> exact_fold 0 (breakdown_values (category_breakdown s))
             \<and> breakdown_sum (category_breakdown s) = py_sum (map Expense.amount es)
             \<and> total_expense s = breakdown_sum (category_breakdown s)))"
proof (intro impI, elim conjE)
  assume p: "0 \<le> sal" "list_all (\<lambda>e. 0 \<le> Expense.amount e) es"
  define s where "s = \<lparr>user_id = uid, total_salary = sal,
         total_expense = py_round2 (py_sum (map Expense.amount es)),
         remaining_amount = py_round2 (fsub sal (py_sum (map Expense.amount es))),
         category_breakdown = \<lparr>Food = category_totals es FOOD, Transport = category_totals es TRANSPORT,
           Entertainment = category_totals es ENTERTAINMENT, Utilities = category_totals es UTILITIES,
           Other = category_totals es OTHER\<rparr>\<rparr>"
  have a: "aggregate uid sal es = Inr s" unfolding s_def using p by (rule aggregate_ok)
  have t: "total_expense s = py_round2 (py_sum (map Expense.amount es))" by (simp add: s_def)
  have b: "breakdown_value c (category_breakdown s) = py_sum (amounts_in c es)" for c
    by (cases c) (simp_all add: s_def breakdown_value_def category_totals_py_sum amounts_in_def)
  have z: "amounts_in c es = [] \<longrightarrow> breakdown_value c (category_breakdown s) = 0" for c
    unfolding b by (simp add: py_sum_def)
  have x: "breakdown_sum (category_breakdown s) = py_sum (map Expense.amount es)
          \<and> py_round2 (breakdown_sum (category_breakdown s)) = total_expense s
          \<and> (exact_fold 0 (breakdown_values (category_breakdown s)) \<longrightarrow>
                  py_sum (breakdown_values (category_breakdown s)) = py_sum (map Expense.amount es)
                  \<and> py_round2 (py_sum (breakdown_values (category_breakdown s))) = total_expense s)"
    if e: "exact_additions es"
  proof -
    have "breakdown_sum (category_breakdown s) = sum_list (map Expense.amount es)"
      using sum_by_category [of es]
      by (simp add: s_def breakdown_sum_def exact_category_totals [OF e] amounts_in_def)
    then have m: "breakdown_sum (category_breakdown s) = py_sum (map Expense.amount es)"
      using exact_total [OF e] by simp
    have f: "py_sum (breakdown_values (category_breakdown s)) = breakdown_sum (category_breakdown s)"
      if "exact_fold 0 (breakdown_values (category_breakdown s))"
      using exact_py_sum [OF that] by (simp only: breakdown_values_sum)
    from m f t show ?thesis by simp
  qed
  have w: "exact_additions es \<and> exact_fold 0 (breakdown_values (category_breakdown s))
          \<and> breakdown_sum (category_breakdown s) = py_sum (map Expense.amount es)
          \<and> total_expense s = breakdown_sum (category_breakdown s)"
    if w: "whole_amounts (map Expense.amount es)"
  proof -
    note e = whole_exact_additions [OF w]
    have v: "exact_fold 0 (breakdown_values (category_breakdown s))"
      using whole_breakdown_exact [OF w] by (simp add: s_def)
    have "py_round2 (sum_list (map Expense.amount es)) = sum_list (map Expense.amount es)"
      using w by (rule py_round2_whole)
    with x [OF e] e v exact_total [OF e] t show ?thesis by simp
  qed
  from a t b z x w show "\<exists>s. aggregate uid sal es = Inr s
        \<and> total_expense s = py_round2 (py_sum (map Expense.amount es))
        \<and> (\<forall>c. breakdown_value c (category_breakdown s) = py_sum (amounts_in c es)
                \<and> (amounts_in c es = [] \<longrightarrow> breakdown_value c (category_breakdown s) = 0))
        \<and> (exact_additions es \<longrightarrow>
             breakdown_sum (category_breakdown s) = py_sum (map Expense.amount es)
             \<and> py_round2 (breakdown_sum (category_breakdown s)) = total_expense s
             \<and> (exact_fold 0 (breakdown_values (category_breakdown s)) \<longrightarrow>
                  py_sum (breakdown_values (category_breakdown s)) = py_sum (map Expense.amount es)
                  \<and> py_round2 (py_sum (breakdown_values (category_breakdown s))) = total_expense s))
        \<and> (whole_amounts (map Expense.amount es) \<longrightarrow>
             exact_additions es \<and> exact_fold 0 (breakdown_values (category_breakdown s))
             \<and> breakdown_sum (category_breakdown s) = py_sum (map Expense.amount es)
             \<and> total_expense s = breakdown_sum (category_breakdown s))"
    by blast
qed

text \<open>
  The amounts 150.50 Food and 20.25 Transport add exactly without being whole numbers;
  the amounts 200 Transport and 300 Food are whole numbers.
\<close>

theorem breakdown_adds_up_witness:
  "0 \<le> (1000::rat) \<and> list_all (\<lambda>e. 0 \<le> Expense.amount e) ex_quarters
   \<and> aggregate 1 1000 ex_quarters = Inr ex_quarters_summary
   \<and> amounts_in OTHER ex_quarters = []
   \<and> breakdown_value OTHER (category_breakdown ex_quarters_summary) = 0
   \<and> exact_additions ex_quarters
   \<and> exact_fold 0 (breakdown_values (category_breakdown ex_quarters_summary))
   \<and> breakdown_sum (category_breakdown ex_quarters_summary) = py_sum (map Expense.amount ex_quarters)
   \<and> py_round2 (breakdown_sum (category_breakdown ex_quarters_summary))
       = total_expense ex_quarters_summary
   \<and> py_round2 (py_sum (breakdown_values (category_breakdown ex_quarters_summary)))
       = total_expense ex_quarters_summary
   \<and> list_all (\<lambda>e. 0 \<le> Expense.amount e) [ex_february, ex_january]
   \<and> whole_amounts (map Expense.amount [ex_february, ex_january])
   \<and> exact_additions [ex_february, ex_january]
   \<and> aggregate 1 1000 [ex_february, ex_january] =
      Inr \<lparr>user_id = 1, total_salary = 1000, total_expense = 500, remaining_amount = 500,
           category_breakdown = \<lparr>Food = 300, Transport = 200, Entertainment = 0,
             Utilities = 0, Other = 0\<rparr>\<rparr>
   \<and> breakdown_sum \<lparr>Food = 300, Transport = 200, Entertainment = 0, Utilities = 0, Other = 0\<rparr>
       = 500"
proof -
  have p: "0 \<le> (1000::rat)" "list_all (\<lambda>e. 0 \<le> Expense.amount e) ex_quarters"
    "list_all (\<lambda>e. 0 \<le> Expense.amount e) [ex_february, ex_january]"
    by (simp_all add: ex_defs ex_quarters_def ex_expense_def)
  have e: "amounts_in OTHER ex_quarters = []"
    by (simp add: amounts_in_def ex_quarters_def ex_expense_def)
  have v: "exact_fold 0 (breakdown_values (category_breakdown ex_quarters_summary))"
    by code_simp
  have w: "whole_amounts (map Expense.amount [ex_february, ex_january])"
    by (simp add: whole_amounts_def ex_defs)
  have a: "aggregate 1 1000 [ex_february, ex_january] =
      Inr \<lparr>user_id = 1, total_salary = 1000, total_expense = 500, remaining_amount = 500,
           category_breakdown = \<lparr>Food = 300, Transport = 200, Entertainment = 0,
             Utilities = 0, Other = 0\<rparr>\<rparr>"
    by code_simp
  from breakdown_adds_up [where uid = 1 and sal = 1000 and es = ex_quarters] p(1,2)
    ex_quarters_exact e v
  have q: "breakdown_value OTHER (category_breakdown ex_quarters_summary) = 0
     \<and> breakdown_sum (category_breakdown ex_quarters_summary) = py_sum (map Expense.amount ex_quarters)
     \<and> py_round2 (breakdown_sum (category_breakdown ex_quarters_summary))
         = total_expense ex_quarters_summary
     \<and> py_round2 (py_sum (breakdown_values (category_breakdown ex_quarters_summary)))
         = total_expense ex_quarters_summary"
    unfolding ex_quarters_eval by auto
  from breakdown_adds_up [where uid = 1 and sal = 1000 and es = "[ex_february, ex_january]"] p(1,3) w
  have r: "exact_additions [ex_february, ex_january]
     \<and> breakdown_sum \<lparr>Food = 300, Transport = 200, Entertainment = 0, Utilities = 0,
          Other = 0\<rparr> = 500"
    unfolding a by auto
  from p e ex_quarters_eval ex_quarters_exact v q w a r show ?thesis by blast
qed

text \<open>
  The claim says that the unrounded category sums always add up exactly to the unrounded
  total, and that the five values sum to the total up to its rounding.

  For the amounts 0.1 Food, 0.1 Transport, 0.4 Food the first fails: the total is
  \<open>(0.1 + 0.1) + 0.4 = 0.6000000000000001\<close>, Food is \<open>0.1 + 0.4 = 0.5\<close> and Transport is
  \<open>0.1\<close>, whose sum is \<open>0.6\<close> when added as floats and differs from the total when added
  exactly as well.

  For the amounts \<open>2^53\<close> Food, 1 Food, 1 Food, 1 Transport, 1 Transport the second fails:
  the running total and the Food sum stay at \<open>2^53\<close>, since \<open>2^53 + 1\<close> rounds back
  to \<open>2^53\<close>, Transport is 2, and the five values sum to \<open>2^53 + 2\<close>, a float, which no
  rounding to 2 decimals brings back to the total \<open>2^53\<close>.
\<close>

theorem breakdown_adds_up_counterexample:
  "aggregate 1 1000 ex_mixed = Inr ex_mixed_summary
   \<and> breakdown_sum (category_breakdown ex_mixed_summary) \<noteq> py_sum (map Expense.amount ex_mixed)
   \<and> py_sum (breakdown_values (category_breakdown ex_mixed_summary))
       \<noteq> py_sum (map Expense.amount ex_mixed)
   \<and> aggregate 1 1000 ex_large = Inr ex_large_summary
   \<and> py_round2 (breakdown_sum (category_breakdown ex_large_summary))
       \<noteq> total_expense ex_large_summary
   \<and> py_round2 (py_sum (breakdown_values (category_breakdown ex_large_summary)))
       \<noteq> total_expense ex_large_summary"
proof -
  have m: "breakdown_sum (category_breakdown ex_mixed_summary) \<noteq> py_sum (map Expense.amount ex_mixed)"
    "py_sum (breakdown_values (category_breakdown ex_mixed_summary))
       \<noteq> py_sum (map Expense.amount ex_mixed)"
    using ex_mixed_float_sum
    by (simp_all add: ex_mixed_sum ex_mixed_summary_def breakdown_sum_def breakdown_values_def f01_def)
  have l: "py_round2 (breakdown_sum (category_breakdown ex_large_summary))
       \<noteq> total_expense ex_large_summary"
    "py_round2 (py_sum (breakdown_values (category_breakdown ex_large_summary)))
       \<noteq> total_expense ex_large_summary"
    by (simp_all add: ex_large_summary_def breakdown_sum_def breakdown_values_def
          ex_large_float_sum ex_large_round)
  from ex_mixed_eval m ex_large_eval l show ?thesis by blast
qed

subsection \<open>C7: order and aggregation\<close>

text \<open>
  Claim C7, as the code has it. For an existing user and a filter within its declared
  bounds, the expenses that \<open>get_budget_summary\<close> aggregates are those returned by
  \<open>get_user_expenses\<close>, sorted by creation time, newest first. The aggregation gives the
  same result for two orders of the same expenses when every float addition is exact in
  both orders. For whole-number amounts summing to at most \<open>2^53\<close> the additions are
  exact in every order, and every permutation gives the same summary.
\<close>

theorem sorted_then_aggregated:
  "(verify_user_exists d uid = Inr u \<and> filter_bounds filters \<longrightarrow>
      (\<exists>es. get_user_expenses d uid filters = Inr es
         \<and> sorted_wrt (\<lambda>a b. Expense.created_at b \<le> Expense.created_at a) es
         \<and> get_budget_summary d uid filters = aggregate uid (salary u) es))
   \<and> (exact_additions xs \<and> exact_additions ys \<and> mset xs = mset ys \<longrightarrow>
        aggregate uid sal xs = aggregate uid sal ys)
   \<and> (whole_amounts (map Expense.amount xs) \<and> mset xs = mset ys \<and> 0 \<le> sal \<longrightarrow>
        exact_additions xs \<and> exact_additions ys
        \<and> (\<exists>s. aggregate uid sal xs = Inr s \<and> aggregate uid sal ys = Inr s))"
proof -
  have a: "verify_user_exists d uid = Inr u \<and> filter_bounds filters \<longrightarrow>
      (\<exists>es. get_user_expenses d uid filters = Inr es
         \<and> sorted_wrt (\<lambda>a b. Expense.created_at b \<le> Expense.created_at a) es
         \<and> get_budget_summary d uid filters = aggregate uid (salary u) es)"
  proof (intro impI, elim conjE)
    assume u: "verify_user_exists d uid = Inr u" and f: "filter_bounds filters"
    from get_user_expenses_total [OF u f] obtain rows
      where g: "get_user_expenses d uid filters = Inr (order_by_created_at_desc rows)" by blast
    have "get_budget_summary d uid filters = aggregate uid (salary u) (order_by_created_at_desc rows)"
      using u g by (rule get_budget_summary_aggregate)
    with g sorted_desc [of rows]
    show "\<exists>es. get_user_expenses d uid filters = Inr es
         \<and> sorted_wrt (\<lambda>a b. Expense.created_at b \<le> Expense.created_at a) es
         \<and> get_budget_summary d uid filters = aggregate uid (salary u) es"
      by blast
  qed
  have b: "exact_additions xs \<and> exact_additions ys \<and> mset xs = mset ys \<longrightarrow>
        aggregate uid sal xs = aggregate uid sal ys"
    using aggregate_perm_exact [of xs ys uid sal] by blast
  have c: "whole_amounts (map Expense.amount xs) \<and> mset xs = mset ys \<and> 0 \<le> sal \<longrightarrow>
        exact_additions xs \<and> exact_additions ys
        \<and> (\<exists>s. aggregate uid sal xs = Inr s \<and> aggregate uid sal ys = Inr s)"
  proof (intro impI, elim conjE)
    assume w: "whole_amounts (map Expense.amount xs)" and m: "mset xs = mset ys" and s: "0 \<le> sal"
    have n: "list_all (\<lambda>e. 0 \<le> Expense.amount e) xs"
      using w by (simp add: whole_amounts_def list_all_iff)
    note w' = whole_amounts_perm(1) [OF m w]
    from aggregate_ok [OF s n] aggregate_perm [OF m w]
      whole_exact_additions [OF w] whole_exact_additions [OF w']
    show "exact_additions xs \<and> exact_additions ys
        \<and> (\<exists>s. aggregate uid sal xs = Inr s \<and> aggregate uid sal ys = Inr s)" by metis
  qed
  from a b c show ?thesis by blast
qed

text \<open>
  The three example expenses, in the order returned and in the order stored; and the
  amounts 150.50 Food and 20.25 Transport, which are not whole numbers, in both orders.
\<close>

theorem sorted_then_aggregated_witness:
  "verify_user_exists ex_db 1 = Inr ex_alice \<and> filter_bounds None
   \<and> get_user_expenses ex_db 1 None = Inr [ex_june, ex_february, ex_january]
   \<and> sorted_wrt (\<lambda>a b. Expense.created_at b \<le> Expense.created_at a) [ex_june, ex_february, ex_january]
   \<and> get_budget_summary ex_db 1 None = aggregate 1 1000 [ex_june, ex_february, ex_january]
   \<and> whole_amounts (map Expense.amount [ex_june, ex_february, ex_january])
   \<and> mset [ex_june, ex_february, ex_january] = mset [ex_january, ex_february, ex_june]
   \<and> aggregate 1 1000 [ex_june, ex_february, ex_january]
       = aggregate 1 1000 [ex_january, ex_february, ex_june]
   \<and> exact_additions ex_quarters \<and> exact_additions (rev ex_quarters)
   \<and> mset ex_quarters = mset (rev ex_quarters)
   \<and> aggregate 1 1000 (rev ex_quarters) = Inr ex_quarters_summary"
proof -
  have f: "filter_bounds None" by (simp add: filter_bounds_def)
  have g: "get_user_expenses ex_db 1 None = Inr [ex_june, ex_february, ex_january]" by code_simp
  have w: "whole_amounts (map Expense.amount [ex_june, ex_february, ex_january])"
    by (simp add: whole_amounts_def ex_defs)
  have m: "mset [ex_june, ex_february, ex_january] = mset [ex_january, ex_february, ex_june]"
    by (simp add: add.commute)
  have sal: "salary ex_alice = 1000" by (simp add: ex_defs)
  have r: "exact_additions (rev ex_quarters)" by code_simp
  have n: "mset ex_quarters = mset (rev ex_quarters)" by simp
  from sorted_then_aggregated [where d = ex_db and uid = 1 and filters = None and u = ex_alice
      and xs = "[ex_june, ex_february, ex_january]"
      and ys = "[ex_january, ex_february, ex_june]" and sal = 1000] verify_alice f g w m sal
  have i: "sorted_wrt (\<lambda>a b. Expense.created_at b \<le> Expense.created_at a) [ex_june, ex_february, ex_january]
   \<and> get_budget_summary ex_db 1 None = aggregate 1 1000 [ex_june, ex_february, ex_january]
   \<and> aggregate 1 1000 [ex_june, ex_february, ex_january]
       = aggregate 1 1000 [ex_january, ex_february, ex_june]"
    by auto
  from sorted_then_aggregated [where xs = ex_quarters and ys = "rev ex_quarters" and uid = 1
      and sal = 1000] ex_quarters_exact r n
  have j: "aggregate 1 1000 (rev ex_quarters) = Inr ex_quarters_summary"
    unfolding ex_quarters_eval by metis
  from verify_alice f g w m i ex_quarters_exact r n j show ?thesis by blast
qed

text \<open>
  The claim says that the result is the same for every permutation. Float addition is
  not associative: the Food amounts 0.1, 0.2, 0.3 sum to \<open>0.6000000000000001\<close> in this
  order and to \<open>0.6\<close> in the reverse order, and the breakdown reports the sum unrounded.
\<close>

theorem sorted_then_aggregated_counterexample:
  "mset ex_tenths = mset (rev ex_tenths)
   \<and> aggregate 1 1000 ex_tenths \<noteq> aggregate 1 1000 (rev ex_tenths)"
proof -
  have p: "list_all (\<lambda>e. 0 \<le> Expense.amount e) ex_tenths"
    "list_all (\<lambda>e. 0 \<le> Expense.amount e) (rev ex_tenths)"
    by (simp_all add: ex_tenths_def ex_expense_def f01_def f02_def f03_def)
  have "category_totals ex_tenths FOOD \<noteq> category_totals (rev ex_tenths) FOOD"
    by (simp add: ex_tenths_food ex_tenths_rev_food)
  then have "aggregate 1 1000 ex_tenths \<noteq> aggregate 1 1000 (rev ex_tenths)"
    unfolding aggregate_ok [OF _ p(1), of 1000 1, simplified]
      aggregate_ok [OF _ p(2), of 1000 1, simplified] by simp
  then show ?thesis by simp
qed

subsection \<open>C8: update and delete are guarded\<close>

text \<open>
  Claim C8. \<open>update_expense\<close> and \<open>delete_expense\<close> fail with \<open>NotFound\<close> when no
  expense has the given id. When the expense exists and a supplied acting user id differs
  from the owner, they fail with \<open>Forbidden\<close>; in both cases the database is left as it
  was. An acting user id is the id of a stored user, a primary key that the database
  assigns from 1 upwards (\<open>ExpenseCreate\<close> requires \<open>user_id > 0\<close> as well), so it is
  never 0; the statement holds for every id other than 0.
\<close>

theorem update_delete_guarded:
  "((\<forall>e \<in> set (expenses d). expense_id e \<noteq> eid) \<longrightarrow>
      update_expense d eid expense_data uid = (Inl NotFound, d)
      \<and> delete_expense d eid uid = (Inl NotFound, d))
   \<and> (distinct (map expense_id (expenses d)) \<and> e \<in> set (expenses d)
        \<and> acting \<noteq> 0 \<and> acting \<noteq> Expense.user_id e \<longrightarrow>
      update_expense d (expense_id e) expense_data (Some acting) = (Inl Forbidden, d)
      \<and> delete_expense d (expense_id e) (Some acting) = (Inl Forbidden, d))"
proof -
  have a: "(\<forall>e \<in> set (expenses d). expense_id e \<noteq> eid) \<longrightarrow>
      update_expense d eid expense_data uid = (Inl NotFound, d)
      \<and> delete_expense d eid uid = (Inl NotFound, d)"
    by (simp add: update_expense_def delete_expense_def get_expense_absent)
  have b: "distinct (map expense_id (expenses d)) \<and> e \<in> set (expenses d)
        \<and> acting \<noteq> 0 \<and> acting \<noteq> Expense.user_id e \<longrightarrow>
      update_expense d (expense_id e) expense_data (Some acting) = (Inl Forbidden, d)
      \<and> delete_expense d (expense_id e) (Some acting) = (Inl Forbidden, d)"
    using get_expense_unique [of d e]
    by (auto simp: update_expense_def delete_expense_def not_authorized_def truthy_def)
  from a b show ?thesis by blast
qed

text \<open>
  Expense 9 does not exist; expense 1 belongs to user 1 and user 2 acts.
\<close>

theorem update_delete_guarded_witness:
  "list_all (\<lambda>e. expense_id e \<noteq> 9) (expenses ex_db)
   \<and> update_expense ex_db 9 ex_no_update (Some 1) = (Inl NotFound, ex_db)
   \<and> delete_expense ex_db 9 (Some 1) = (Inl NotFound, ex_db)
   \<and> distinct (map expense_id (expenses ex_db)) \<and> ex_january \<in> set (expenses ex_db)
   \<and> (2::int) \<noteq> 0 \<and> 2 \<noteq> Expense.user_id ex_january
   \<and> update_expense ex_db (expense_id ex_january) ex_no_update (Some 2) = (Inl Forbidden, ex_db)
   \<and> delete_expense ex_db (expense_id ex_january) (Some 2) = (Inl Forbidden, ex_db)"
proof -
  have h: "\<forall>e \<in> set (expenses ex_db). expense_id e \<noteq> 9"
    "distinct (map expense_id (expenses ex_db))" "ex_january \<in> set (expenses ex_db)"
    "(2::int) \<noteq> 0" "2 \<noteq> Expense.user_id ex_january"
    by (simp_all add: ex_defs)
  from update_delete_guarded [where d = ex_db and eid = 9 and expense_data = ex_no_update
      and uid = "Some 1" and e = ex_january and acting = 2] h
  show ?thesis by (simp add: list_all_iff)
qed

subsection \<open>C9: the frame of an update\<close>

text \<open>
  Claim C9, as the code has it. When the owner updates an expense and every supplied field
  carries a value, the update succeeds: each supplied field takes the supplied value, every
  other field, with \<open>expense_id\<close>, \<open>user_id\<close> and \<open>created_at\<close>, keeps its value, and no
  other row changes. When a supplied field is null, the update fails with an integrity
  error and the database is left as it was.
\<close>

theorem update_changes_supplied_fields:
  assumes "distinct (map expense_id (expenses d))" and "e \<in> set (expenses d)"
  shows "(ExpenseUpdate.name upd \<noteq> Set None \<and> ExpenseUpdate.amount upd \<noteq> Set None
            \<and> ExpenseUpdate.category upd \<noteq> Set None \<longrightarrow>
          (\<exists>e'. update_expense d (expense_id e) upd (Some (Expense.user_id e))
              = (Inr e', d\<lparr>expenses := map (\<lambda>x. if x = e then e' else x) (expenses d)\<rparr>)
          \<and> Expense.name e' = (case ExpenseUpdate.name upd of Set (Some v) \<Rightarrow> v | _ \<Rightarrow> Expense.name e)
          \<and> Expense.amount e' = (case ExpenseUpdate.amount upd of Set (Some v) \<Rightarrow> v | _ \<Rightarrow> Expense.amount e)
          \<and> Expense.category e' = (case ExpenseUpdate.category upd of Set (Some v) \<Rightarrow> v | _ \<Rightarrow> Expense.category e)
          \<and> expense_id e' = expense_id e
          \<and> Expense.user_id e' = Expense.user_id e
          \<and> Expense.created_at e' = Expense.created_at e))
       \<and> (ExpenseUpdate.name upd = Set None \<or> ExpenseUpdate.amount upd = Set None
            \<or> ExpenseUpdate.category upd = Set None \<longrightarrow>
          update_expense d (expense_id e) upd (Some (Expense.user_id e)) = (Inl IntegrityError, d))"
proof (intro conjI impI)
  assume v: "ExpenseUpdate.name upd \<noteq> Set None \<and> ExpenseUpdate.amount upd \<noteq> Set None
            \<and> ExpenseUpdate.category upd \<noteq> Set None"
  obtain n where n: "setattr (ExpenseUpdate.name upd) (Some (Expense.name e)) = Some n"
      "n = (case ExpenseUpdate.name upd of Set (Some v) \<Rightarrow> v | _ \<Rightarrow> Expense.name e)"
    using v by (cases "ExpenseUpdate.name upd") (auto simp: setattr_def)
  obtain a where a: "setattr (ExpenseUpdate.amount upd) (Some (Expense.amount e)) = Some a"
      "a = (case ExpenseUpdate.amount upd of Set (Some v) \<Rightarrow> v | _ \<Rightarrow> Expense.amount e)"
    using v by (cases "ExpenseUpdate.amount upd") (auto simp: setattr_def)
  obtain c where c: "setattr (ExpenseUpdate.category upd) (Some (Expense.category e)) = Some c"
      "c = (case ExpenseUpdate.category upd of Set (Some v) \<Rightarrow> v | _ \<Rightarrow> Expense.category e)"
    using v by (cases "ExpenseUpdate.category upd") (auto simp: setattr_def)
  define e' where "e' = e\<lparr>Expense.name := n, Expense.amount := a, Expense.category := c\<rparr>"
  have id: "expense_id e' = expense_id e" by (simp add: e'_def)
  have "update_expense d (expense_id e) upd (Some (Expense.user_id e)) = (Inr e', replace_row e' d)"
    using get_expense_unique [OF assms(1,2)] n(1) a(1) c(1)
    by (simp add: update_expense_def not_authorized_def commit_expense_def e'_def)
  moreover note replace_row_unique [OF assms(1,2) id]
  ultimately have "update_expense d (expense_id e) upd (Some (Expense.user_id e))
              = (Inr e', d\<lparr>expenses := map (\<lambda>x. if x = e then e' else x) (expenses d)\<rparr>)"
    by simp
  moreover have "Expense.name e' = n" "Expense.amount e' = a" "Expense.category e' = c"
    "Expense.user_id e' = Expense.user_id e" "Expense.created_at e' = Expense.created_at e"
    by (simp_all add: e'_def)
  ultimately show "\<exists>e'. update_expense d (expense_id e) upd (Some (Expense.user_id e))
              = (Inr e', d\<lparr>expenses := map (\<lambda>x. if x = e then e' else x) (expenses d)\<rparr>)
          \<and> Expense.name e' = (case ExpenseUpdate.name upd of Set (Some v) \<Rightarrow> v | _ \<Rightarrow> Expense.name e)
          \<and> Expense.amount e' = (case ExpenseUpdate.amount upd of Set (Some v) \<Rightarrow> v | _ \<Rightarrow> Expense.amount e)
          \<and> Expense.category e' = (case ExpenseUpdate.category upd of Set (Some v) \<Rightarrow> v | _ \<Rightarrow> Expense.category e)
          \<and> expense_id e' = expense_id e
          \<and> Expense.user_id e' = Expense.user_id e
          \<and> Expense.created_at e' = Expense.created_at e"
    using n(2) a(2) c(2) id by blast
next
  assume "ExpenseUpdate.name upd = Set None \<or> ExpenseUpdate.amount upd = Set None
            \<or> ExpenseUpdate.category upd = Set None"
  then have "commit_expense e (setattr (ExpenseUpdate.name upd) (Some (Expense.name e)))
        (setattr (ExpenseUpdate.amount upd) (Some (Expense.amount e)))
        (setattr (ExpenseUpdate.category upd) (Some (Expense.category e))) = Inl IntegrityError"
    by (auto simp: commit_expense_def setattr_def split: option.splits)
  then show "update_expense d (expense_id e) upd (Some (Expense.user_id e)) = (Inl IntegrityError, d)"
    using get_expense_unique [OF assms(1,2)]
    by (simp add: update_expense_def not_authorized_def)
qed

text \<open>
  User 1 renames expense 1; user 1 sends a null amount for expense 2.
\<close>

theorem update_changes_supplied_fields_witness:
  "distinct (map expense_id (expenses ex_db)) \<and> ex_january \<in> set (expenses ex_db)
   \<and> update_expense ex_db 1 \<lparr>name = Set (Some ''Market''), amount = Unset, category = Unset\<rparr> (Some 1)
       = (Inr (ex_january\<lparr>Expense.name := ''Market''\<rparr>),
          ex_db\<lparr>expenses := [ex_january\<lparr>Expense.name := ''Market''\<rparr>, ex_february, ex_june]\<rparr>)
   \<and> ex_february \<in> set (expenses ex_db)
   \<and> update_expense ex_db (expense_id ex_february)
         \<lparr>name = Set (Some ''Bus''), amount = Set None, category = Unset\<rparr>
         (Some (Expense.user_id ex_february))
       = (Inl IntegrityError, ex_db)"
proof -
  have h: "distinct (map expense_id (expenses ex_db))" "ex_january \<in> set (expenses ex_db)"
    "ex_february \<in> set (expenses ex_db)"
    by (simp_all add: ex_defs)
  from update_changes_supplied_fields [OF h(1,2),
      of "\<lparr>name = Set (Some ''Market''), amount = Unset, category = Unset\<rparr>"]
  obtain e' where e': "update_expense ex_db (expense_id ex_january)
        \<lparr>name = Set (Some ''Market''), amount = Unset, category = Unset\<rparr>
        (Some (Expense.user_id ex_january))
      = (Inr e', ex_db\<lparr>expenses := map (\<lambda>x. if x = ex_january then e' else x) (expenses ex_db)\<rparr>)"
    by auto
  have "update_expense ex_db (expense_id ex_january)
        \<lparr>name = Set (Some ''Market''), amount = Unset, category = Unset\<rparr>
        (Some (Expense.user_id ex_january))
      = (Inr (ex_january\<lparr>Expense.name := ''Market''\<rparr>),
          ex_db\<lparr>expenses := [ex_january\<lparr>Expense.name := ''Market''\<rparr>, ex_february, ex_june]\<rparr>)"
    by (simp add: update_expense_def get_expense_by_id_def scalar_one_or_none_def
          not_authorized_def truthy_def setattr_def commit_expense_def replace_row_def ex_defs)
  with e' h have r: "update_expense ex_db 1
         \<lparr>name = Set (Some ''Market''), amount = Unset, category = Unset\<rparr> (Some 1)
       = (Inr (ex_january\<lparr>Expense.name := ''Market''\<rparr>),
          ex_db\<lparr>expenses := [ex_january\<lparr>Expense.name := ''Market''\<rparr>, ex_february, ex_june]\<rparr>)"
    by (simp add: ex_defs)
  from update_changes_supplied_fields [OF h(1,3),
      of "\<lparr>name = Set (Some ''Bus''), amount = Set None, category = Unset\<rparr>"]
  have n: "update_expense ex_db (expense_id ex_february)
         \<lparr>name = Set (Some ''Bus''), amount = Set None, category = Unset\<rparr>
         (Some (Expense.user_id ex_february))
       = (Inl IntegrityError, ex_db)"
    by simp
  from h r n show ?thesis by blast
qed

text \<open>
  The claim says that an update by the owner succeeds. A field supplied as null is part of
  the dumped update data, the attribute is set to \<open>None\<close>, and the commit fails on the
  \<open>nullable=False\<close> column: user 1 sends \<open>name = null\<close> for the own expense 1.
\<close>

theorem update_changes_supplied_fields_counterexample:
  "Expense.user_id ex_january = 1
   \<and> update_expense ex_db 1 \<lparr>name = Set None, amount = Unset, category = Unset\<rparr> (Some 1)
       = (Inl IntegrityError, ex_db)"
  by (simp add: update_expense_def get_expense_by_id_def scalar_one_or_none_def
        not_authorized_def truthy_def setattr_def commit_expense_def ex_defs)

subsection \<open>C10: authentication\<close>

text \<open>
  Claim C10. With unique usernames, \<open>authenticate_user\<close> returns no user exactly when the
  username matches no user, or the matched user has no stored credential (no hash, or an
  empty one), or the verification of the password against the stored hash fails; in every
  other case it returns the matched user. The failures are not told apart, and
  \<open>is_active\<close> plays no part.
\<close>

theorem authenticate_user_none_iff:
  assumes "distinct (map username (users d))"
  shows "(authenticate_user vp d un pw = Inr None) =
           ((\<forall>u \<in> set (users d). username u \<noteq> un) \<or>
            (\<exists>u \<in> set (users d). username u = un \<and>
               (no_stored_credential u \<or> (\<exists>h. hashed_password u = Some h \<and> \<not> vp pw h))))
         \<and> (\<forall>u \<in> set (users d). username u = un \<and> \<not> no_stored_credential u
               \<and> (\<exists>h. hashed_password u = Some h \<and> vp pw h) \<longrightarrow>
               authenticate_user vp d un pw = Inr (Some u))"
proof -
  have pos: "\<forall>u \<in> set (users d). username u = un \<and> \<not> no_stored_credential u
               \<and> (\<exists>h. hashed_password u = Some h \<and> vp pw h) \<longrightarrow>
               authenticate_user vp d un pw = Inr (Some u)"
    using auth_present [OF assms] by auto
  have iff: "(authenticate_user vp d un pw = Inr None) =
           ((\<forall>u \<in> set (users d). username u \<noteq> un) \<or>
            (\<exists>u \<in> set (users d). username u = un \<and>
               (no_stored_credential u \<or> (\<exists>h. hashed_password u = Some h \<and> \<not> vp pw h))))"
  proof (cases "\<forall>u \<in> set (users d). username u \<noteq> un")
    case True
    then show ?thesis using auth_absent by blast
  next
    case False
    then obtain u where u: "u \<in> set (users d)" "username u = un" by blast
    have uniq: "\<And>v. v \<in> set (users d) \<Longrightarrow> username v = un \<Longrightarrow> v = u"
      using assms u by (metis distinct_map inj_onD)
    from auth_present [OF assms u(1), of vp pw] u(2)
    have "(authenticate_user vp d un pw = Inr None) =
            (no_stored_credential u \<or> (\<exists>h. hashed_password u = Some h \<and> \<not> vp pw h))"
      by (cases "hashed_password u") (auto simp: no_stored_credential_def split: if_splits)
    with u uniq False show ?thesis by blast
  qed
  from iff pos show ?thesis by blast
qed

text \<open>
  A wrong password, a user without a hash, an unknown name, and the right password of a
  user who is not active.
\<close>

theorem authenticate_user_none_iff_witness:
  "distinct (map username (users ex_db))
   \<and> authenticate_user ex_verify ex_db ''alice'' ''wrong'' = Inr None
   \<and> authenticate_user ex_verify ex_db ''bob'' ''secret'' = Inr None
   \<and> authenticate_user ex_verify ex_db ''carol'' ''secret'' = Inr None
   \<and> \<not> is_active ex_alice
   \<and> authenticate_user ex_verify ex_db ''alice'' ''secret'' = Inr (Some ex_alice)"
proof -
  have d: "distinct (map username (users ex_db))" by (simp add: ex_defs)
  show ?thesis
    using d authenticate_user_none_iff [OF d, of ex_verify "''alice''" "''wrong''"]
      authenticate_user_none_iff [OF d, of ex_verify "''bob''" "''secret''"]
      authenticate_user_none_iff [OF d, of ex_verify "''carol''" "''secret''"]
      authenticate_user_none_iff [OF d, of ex_verify "''alice''" "''secret''"]
    by (simp add: ex_defs ex_verify_def no_stored_credential_def)
qed

end
